theory Spec2Isabelle
  imports Complex_Main "HOL-Library.Multiset"
begin

section \<open>Mandelbrot escape-time fractals: tiling, evaluation, colouring\<close>

text \<open>
  The Python sources are \<^verbatim>\<open>mandelbrot.py\<close>, \<^verbatim>\<open>mandelbrot_float.py\<close>,
  \<^verbatim>\<open>mandelbrot_complex.py\<close> and \<^verbatim>\<open>polycolor.py\<close>.

  Conventions of the embedding.
  \<^item> Python integers are \<open>int\<close>; lengths and array indices are \<open>nat\<close>.
  \<^item> Floating-point numbers are modelled by the real numbers they denote: every operation
    is exact. The concrete inputs used below (0, 3, 1/2 and small integers) are exactly
    representable, and so are all intermediate results on them. A statement about every
    input is either conditional on the outcome of the escape loop or holds for every
    evaluator, so that it does not depend on how the arithmetic rounds.
  \<^item> An exception is a value \<open>Inl e\<close> of the sum type \<open>error + 'a\<close>.
\<close>

datatype error = ZeroDivisionError | ValueError | IndexError | WorkerError string

subsection \<open>\<^verbatim>\<open>mandelbrot.py\<close>: \<^verbatim>\<open>batch_ranges_with_size\<close>\<close>

text \<open>
  \<^verbatim>\<open>range(n_batches)\<close> is empty for \<open>n_batches \<le> 0\<close>, as \<open>[0..<nat n_batches]\<close> is.
  Python's \<^verbatim>\<open>//\<close> is floor division, as \<open>div\<close> on \<open>int\<close> is, and raises
  \<^verbatim>\<open>ZeroDivisionError\<close> for a zero divisor.
\<close>

definition batch_ranges_with_size :: "int \<Rightarrow> int \<Rightarrow> error + (int \<times> int) list" where
  "batch_ranges_with_size N batch_size =
     (if N \<le> batch_size then Inr [(0, N)]
      else if batch_size = 0 then Inl ZeroDivisionError
      else
        let n_batches = N div batch_size;
            rng = map (\<lambda>i. (int i * batch_size, (int i + 1) * batch_size)) [0..<nat n_batches]
        in if batch_size * n_batches < N
           then Inr (rng @ [(batch_size * n_batches, N)])
           else Inr rng)"

text \<open>The index set of a half-open range, and the properties of a list of ranges.\<close>

definition range_set :: "int \<times> int \<Rightarrow> int set" where
  "range_set r = {fst r ..< snd r}"

definition range_len :: "int \<times> int \<Rightarrow> int" where
  "range_len r = snd r - fst r"

text \<open>\<open>chained a rs b\<close>: the ranges of \<open>rs\<close> are non-empty, the first starts at \<open>a\<close>,
  each next one starts where the previous one ends, and the last ends at \<open>b\<close>.\<close>

fun chained :: "int \<Rightarrow> (int \<times> int) list \<Rightarrow> int \<Rightarrow> bool" where
  "chained a [] b = (a = b)"
| "chained a (r # rs) b = (fst r = a \<and> fst r < snd r \<and> chained (snd r) rs b)"

definition pairwise_disjoint :: "(int \<times> int) list \<Rightarrow> bool" where
  "pairwise_disjoint rs =
     (\<forall>i < length rs. \<forall>j < length rs. i \<noteq> j \<longrightarrow> range_set (rs ! i) \<inter> range_set (rs ! j) = {})"

definition covers :: "(int \<times> int) list \<Rightarrow> int \<Rightarrow> bool" where
  "covers rs N = ((\<Union>r \<in> set rs. range_set r) = {0 ..< N})"


subsection \<open>\<^verbatim>\<open>fn_test\<close>: the escape-time evaluators\<close>

text \<open>
  The three files iterate \<open>z \<mapsto> z\<^sup>2 + c\<close> from \<open>z = 0\<close> in a \<^verbatim>\<open>for i in range(...)\<close>
  loop that returns from inside the loop when the escape test succeeds.
  \<open>escape_loop\<close> is that loop for the two real-valued files: \<open>thr\<close> is the constant of the
  escape test (\<^verbatim>\<open>4\<close> in \<^verbatim>\<open>mandelbrot.py\<close>, \<^verbatim>\<open>16\<close> in \<^verbatim>\<open>mandelbrot_float.py\<close>),
  \<open>i\<close> the loop index and the last argument the number of iterations still to run.
  The result is \<open>Some i\<close> when the test succeeds in the iteration with index \<open>i\<close> and
  \<open>None\<close> when the loop runs to its end.
  The arithmetic is exact; where the source's floating-point operations round (a point
  whose squared modulus is above the threshold by less than the rounding error), the
  source's test can succeed one iteration later than the test here.
\<close>

fun escape_loop :: "real \<Rightarrow> real \<Rightarrow> real \<Rightarrow> real \<Rightarrow> real \<Rightarrow> nat \<Rightarrow> nat \<Rightarrow> nat option" where
  "escape_loop thr cx cy x y i 0 = None"
| "escape_loop thr cx cy x y i (Suc k) =
     (let xn = x * x - y * y + cx;
          yn = 2 * x * y + cy
      in if xn * xn + yn * yn > thr then Some i
         else escape_loop thr cx cy xn yn (Suc i) k)"

text \<open>\<^verbatim>\<open>mandelbrot.py\<close>: returns \<^verbatim>\<open>i / depth\<close> on escape and \<^verbatim>\<open>0\<close> otherwise.\<close>

definition fn_test :: "real \<Rightarrow> real \<Rightarrow> int \<Rightarrow> real" where
  "fn_test cx cy depth =
     (case escape_loop 4 cx cy 0 0 0 (nat depth) of
        Some i \<Rightarrow> real i / real_of_int depth
      | None \<Rightarrow> 0)"

text \<open>\<^verbatim>\<open>mandelbrot_float.py\<close>: returns \<^verbatim>\<open>i\<close> on escape and \<^verbatim>\<open>max_it\<close> otherwise.\<close>

definition fn_test_float :: "real \<Rightarrow> real \<Rightarrow> int \<Rightarrow> int" where
  "fn_test_float cx cy max_it =
     (case escape_loop 16 cx cy 0 0 0 (nat max_it) of
        Some i \<Rightarrow> int i
      | None \<Rightarrow> max_it)"

text \<open>\<^verbatim>\<open>mandelbrot_complex.py\<close>: the same loop on a complex number, with the test
  \<^verbatim>\<open>np.abs(zn) > 2.0\<close>.\<close>

fun escape_loop_complex :: "complex \<Rightarrow> complex \<Rightarrow> nat \<Rightarrow> nat \<Rightarrow> nat option" where
  "escape_loop_complex c z i 0 = None"
| "escape_loop_complex c z i (Suc k) =
     (let zn = z ^ 2 + c
      in if cmod zn > 2 then Some i
         else escape_loop_complex c zn (Suc i) k)"

definition fn_test_complex :: "complex \<Rightarrow> int \<Rightarrow> int" where
  "fn_test_complex c max_it =
     (case escape_loop_complex c 0 0 (nat max_it) of
        Some i \<Rightarrow> int i
      | None \<Rightarrow> max_it)"

subsection \<open>The coordinate axes\<close>

text \<open>
  \<^verbatim>\<open>np.linspace(start, stop, num)\<close> is numpy's: \<open>num\<close> evenly spaced samples from
  \<open>start\<close> to \<open>stop\<close> inclusive. A negative \<open>num\<close> raises \<^verbatim>\<open>ValueError\<close>; for
  \<open>num = 1\<close> the only sample is \<open>start\<close>; for \<open>num > 1\<close> the step is
  \<open>(stop - start) / (num - 1)\<close> and the last sample is set to \<open>stop\<close>.
\<close>

definition linspace :: "real \<Rightarrow> real \<Rightarrow> int \<Rightarrow> error + real list" where
  "linspace start stop num =
     (if num < 0 then Inl ValueError
      else if num = 0 then Inr []
      else if num = 1 then Inr [start]
      else
        let step = (stop - start) / real_of_int (num - 1)
        in Inr (map (\<lambda>i. start + real i * step) [0..<nat num - 1] @ [stop]))"

text \<open>The first two lines of \<^verbatim>\<open>mandelbrot\<close> (the same in \<^verbatim>\<open>mandelbrot.py\<close> and
  \<^verbatim>\<open>mandelbrot_float.py\<close>): the real axis runs from \<open>xmin\<close> to \<open>xmax\<close>, the imaginary
  axis from \<open>ymax\<close> down to \<open>ymin\<close>.\<close>

definition mandelbrot_axes ::
  "real \<Rightarrow> real \<Rightarrow> real \<Rightarrow> real \<Rightarrow> int \<Rightarrow> error + (real list \<times> real list)" where
  "mandelbrot_axes xmin xmax ymin ymax image_size =
     (case linspace xmin xmax image_size of
        Inl e \<Rightarrow> Inl e
      | Inr xx \<Rightarrow>
          (case linspace ymax ymin image_size of
             Inl e \<Rightarrow> Inl e
           | Inr yy \<Rightarrow> Inr (xx, yy)))"

subsection \<open>Tiles\<close>

text \<open>
  An array slot is \<open>'v option\<close>: \<open>None\<close> is a slot of \<^verbatim>\<open>np.empty\<close> that has not been
  written. A two-dimensional array is the list of its rows.
  The dictionary returned by \<^verbatim>\<open>compute_tile\<close> (and by \<^verbatim>\<open>_inner_loop\<close>) is a record.
  The bounds of a tile are indices: the executors pass the bounds of the ranges that
  \<^verbatim>\<open>batch_ranges_with_size\<close> returns for a length, and these are never negative.
\<close>

type_synonym 'v array2 = "'v option list list"

record 'v tile =
  tile_zz :: "'v array2"
  tile_rmin :: nat
  tile_rmax :: nat
  tile_cmin :: nat
  tile_cmax :: nat

definition np_empty :: "nat \<Rightarrow> nat \<Rightarrow> 'v array2" where
  "np_empty rows cols = replicate rows (replicate cols None)"

definition py_nth :: "'a list \<Rightarrow> nat \<Rightarrow> error + 'a" where
  "py_nth xs i = (if i < length xs then Inr (xs ! i) else Inl IndexError)"

text \<open>Running a loop body over a list until the first exception.\<close>

fun traverse :: "('a \<Rightarrow> error + 'b) \<Rightarrow> 'a list \<Rightarrow> error + 'b list" where
  "traverse f [] = Inr []"
| "traverse f (x # xs) =
     (case f x of
        Inl e \<Rightarrow> Inl e
      | Inr y \<Rightarrow> (case traverse f xs of Inl e \<Rightarrow> Inl e | Inr ys \<Rightarrow> Inr (y # ys)))"

text \<open>
  The body shared by \<^verbatim>\<open>compute_tile\<close> (\<^verbatim>\<open>mandelbrot.py\<close>) and \<^verbatim>\<open>_inner_loop\<close>
  (\<^verbatim>\<open>mandelbrot_float.py\<close>), which differ in the evaluator \<open>ev\<close> they call only.
  \<^verbatim>\<open>np.empty\<close> raises \<^verbatim>\<open>ValueError\<close> for a negative dimension; then row by row, column by
  column, \<^verbatim>\<open>zz[i, j] = ev(xx[c], yy[r], depth)\<close>; every slot of the buffer is written.
\<close>

definition tile_loop ::
  "(real \<Rightarrow> real \<Rightarrow> int \<Rightarrow> error + 'v) \<Rightarrow> real list \<Rightarrow> real list
     \<Rightarrow> nat \<Rightarrow> nat \<Rightarrow> nat \<Rightarrow> nat \<Rightarrow> int \<Rightarrow> error + 'v tile" where
  "tile_loop ev xx yy rmin rmax cmin cmax depth =
     (if rmax < rmin \<or> cmax < cmin then Inl ValueError
      else
        case traverse (\<lambda>r.
               traverse (\<lambda>c.
                 case py_nth xx c of
                   Inl e \<Rightarrow> Inl e
                 | Inr x \<Rightarrow>
                     (case py_nth yy r of
                        Inl e \<Rightarrow> Inl e
                      | Inr y \<Rightarrow>
                          (case ev x y depth of Inl e \<Rightarrow> Inl e | Inr v \<Rightarrow> Inr (Some v))))
                 [cmin..<cmax])
               [rmin..<rmax] of
          Inl e \<Rightarrow> Inl e
        | Inr buf \<Rightarrow>
            Inr \<lparr>tile_zz = buf, tile_rmin = rmin, tile_rmax = rmax,
                 tile_cmin = cmin, tile_cmax = cmax\<rparr>)"

definition compute_tile ::
  "real list \<Rightarrow> real list \<Rightarrow> nat \<Rightarrow> nat \<Rightarrow> nat \<Rightarrow> nat \<Rightarrow> int \<Rightarrow> error + real tile" where
  "compute_tile = tile_loop (\<lambda>cx cy depth. Inr (fn_test cx cy depth))"

definition inner_loop ::
  "real list \<Rightarrow> real list \<Rightarrow> nat \<Rightarrow> nat \<Rightarrow> nat \<Rightarrow> nat \<Rightarrow> int \<Rightarrow> error + real tile" where
  "inner_loop = tile_loop (\<lambda>cx cy max_it. Inr (real_of_int (fn_test_float cx cy max_it)))"

text \<open>
  \<^verbatim>\<open>zz[rmin:rmax, cmin:cmax] = tile["zz"]\<close>: the slots of the grid inside the slice take
  the tile's slots, the others stay. This is numpy's assignment when the buffer has the
  shape of the slice, which the buffers built by \<open>tile_loop\<close> have.
\<close>

definition paste :: "'v array2 \<Rightarrow> 'v tile \<Rightarrow> 'v array2" where
  "paste grid t =
     map (\<lambda>r. map (\<lambda>c.
            if tile_rmin t \<le> r \<and> r < tile_rmax t \<and> tile_cmin t \<le> c \<and> c < tile_cmax t
            then tile_zz t ! (r - tile_rmin t) ! (c - tile_cmin t)
            else grid ! r ! c)
          [0..<length (grid ! r)])
       [0..<length grid]"

subsection \<open>The executor\<close>

text \<open>\<open>inside t r c\<close>: the slot \<open>(r, c)\<close> of the grid lies in the slice of the tile \<open>t\<close>.\<close>

definition inside :: "'v tile \<Rightarrow> nat \<Rightarrow> nat \<Rightarrow> bool" where
  "inside t r c \<longleftrightarrow> tile_rmin t \<le> r \<and> r < tile_rmax t \<and> tile_cmin t \<le> c \<and> c < tile_cmax t"

text \<open>
  \<^verbatim>\<open>futures.as_completed\<close> yields the futures in the order in which they complete.
  \<open>done_at i\<close> is the time at which the \<open>i\<close>-th submitted future completes; any function
  is a possible schedule, and futures completing together come in submission order.
\<close>

definition as_completed :: "(nat \<Rightarrow> nat) \<Rightarrow> 'a list \<Rightarrow> 'a list" where
  "as_completed done_at future_list =
     map (\<lambda>i. future_list ! i) (sort_key done_at [0..<length future_list])"

text \<open>
  \<^verbatim>\<open>ProcessPoolExecutor(max_workers=n_workers)\<close> is the standard library's: it raises
  \<^verbatim>\<open>ValueError\<close> when \<^verbatim>\<open>max_workers\<close> is not positive, and on a platform that limits the
  size of a pool (Windows: 61) when \<^verbatim>\<open>max_workers\<close> is above the limit. \<open>pool_max\<close> is that
  limit, \<open>None\<close> where there is none.
\<close>

definition pool_rejects :: "int option \<Rightarrow> int \<Rightarrow> bool" where
  "pool_rejects pool_max max_workers \<longleftrightarrow>
     max_workers \<le> 0 \<or> (case pool_max of Some m \<Rightarrow> m < max_workers | None \<Rightarrow> False)"

text \<open>
  The body of \<^verbatim>\<open>compute_image\<close> in \<^verbatim>\<open>mandelbrot.py\<close>, with the submitted function as
  the parameter \<open>work\<close>. Every tile is submitted, row batch by row batch;
  \<^verbatim>\<open>future.result()\<close> returns the tile or raises the exception the worker raised. The
  tiles are then written into the grid in completion order. \<^verbatim>\<open>np.min\<close> raises
  \<^verbatim>\<open>ValueError\<close> on an array without elements.
\<close>

definition compute_image_with ::
  "(real list \<Rightarrow> real list \<Rightarrow> nat \<Rightarrow> nat \<Rightarrow> nat \<Rightarrow> nat \<Rightarrow> int \<Rightarrow> error + 'v tile)
     \<Rightarrow> real list \<Rightarrow> real list \<Rightarrow> int \<Rightarrow> int \<Rightarrow> int \<Rightarrow> int option \<Rightarrow> (nat \<Rightarrow> nat)
     \<Rightarrow> error + 'v array2" where
  "compute_image_with work xx yy depth n_workers tile_size pool_max done_at =
     (let rows = length yy; cols = length xx in
      case batch_ranges_with_size (int rows) tile_size of
        Inl e \<Rightarrow> Inl e
      | Inr row_batches \<Rightarrow>
      case batch_ranges_with_size (int cols) tile_size of
        Inl e \<Rightarrow> Inl e
      | Inr col_batches \<Rightarrow>
      if pool_rejects pool_max n_workers then Inl ValueError
      else
        let future_list =
              concat (map (\<lambda>row_batch. map (\<lambda>col_batch.
                        work xx yy (nat (fst row_batch)) (nat (snd row_batch))
                                   (nat (fst col_batch)) (nat (snd col_batch)) depth)
                      col_batches) row_batches)
        in case traverse (\<lambda>future. future) (as_completed done_at future_list) of
             Inl e \<Rightarrow> Inl e
           | Inr image_tile_list \<Rightarrow>
               let zz = foldl paste (np_empty rows cols) image_tile_list
               in if rows = 0 \<or> cols = 0 then Inl ValueError else Inr zz)"

definition compute_image ::
  "real list \<Rightarrow> real list \<Rightarrow> int \<Rightarrow> int \<Rightarrow> int \<Rightarrow> int option \<Rightarrow> (nat \<Rightarrow> nat)
     \<Rightarrow> error + real array2" where
  "compute_image = compute_image_with compute_tile"

definition mandelbrot ::
  "real \<Rightarrow> real \<Rightarrow> real \<Rightarrow> real \<Rightarrow> int \<Rightarrow> int \<Rightarrow> int \<Rightarrow> int \<Rightarrow> int option \<Rightarrow> (nat \<Rightarrow> nat)
     \<Rightarrow> error + real array2" where
  "mandelbrot xmin xmax ymin ymax image_size depth n_workers tile_size pool_max done_at =
     (case mandelbrot_axes xmin xmax ymin ymax image_size of
        Inl e \<Rightarrow> Inl e
      | Inr (xx, yy) \<Rightarrow> compute_image xx yy depth n_workers tile_size pool_max done_at)"

subsection \<open>\<^verbatim>\<open>mandelbrot_float.py\<close>: the sequential and the tiled executor\<close>

text \<open>
  A floating-point division of numpy raises nothing: a zero divisor gives \<^verbatim>\<open>nan\<close> or an
  infinity (and a warning). \<open>fnum\<close> adds these three values to the numbers.
\<close>

datatype fnum = Fin real | PosInf | NegInf | NaN

definition np_divide :: "real \<Rightarrow> real \<Rightarrow> fnum" where
  "np_divide a b =
     (if b = 0 then (if a = 0 then NaN else if 0 < a then PosInf else NegInf)
      else Fin (a / b))"

text \<open>\<^verbatim>\<open>zz / max_it\<close>, slot by slot; a slot never written stays so.\<close>

definition normalize_grid :: "real array2 \<Rightarrow> int \<Rightarrow> fnum array2" where
  "normalize_grid zz max_it = map (map (map_option (\<lambda>v. np_divide v (real_of_int max_it)))) zz"

text \<open>The body of the sequential \<^verbatim>\<open>compute_image\<close>, with the function it calls as the
  parameter \<open>work\<close>; in the source that is \<^verbatim>\<open>_inner_loop\<close>.\<close>

definition compute_image_float_with ::
  "(real list \<Rightarrow> real list \<Rightarrow> nat \<Rightarrow> nat \<Rightarrow> nat \<Rightarrow> nat \<Rightarrow> int \<Rightarrow> error + real tile)
     \<Rightarrow> real list \<Rightarrow> real list \<Rightarrow> int \<Rightarrow> error + fnum array2" where
  "compute_image_float_with work xx yy max_it =
     (let rows = length yy; cols = length xx in
      case work xx yy 0 rows 0 cols max_it of
        Inl e \<Rightarrow> Inl e
      | Inr out \<Rightarrow> Inr (normalize_grid (tile_zz out) max_it))"

definition compute_image_float :: "real list \<Rightarrow> real list \<Rightarrow> int \<Rightarrow> error + fnum array2" where
  "compute_image_float = compute_image_float_with inner_loop"

text \<open>
  Modelled from the spec: \<^verbatim>\<open>hup.batch_ranges_with_size\<close> is imported from the package
  \<^verbatim>\<open>avax.hydra.utils.parallel\<close>, which is not among the sources. The spec gives one
  partition algorithm for the tile scheduler: a single range \<open>[0, total_length)\<close> if
  \<open>total_length \<le> tile_size\<close>, otherwise \<open>floor(total_length / tile_size)\<close> full ranges and
  one trailing remainder range if \<open>total_length\<close> is not a multiple. That is the function
  of the same name in \<^verbatim>\<open>mandelbrot.py\<close>.
\<close>

definition hup_batch_ranges_with_size :: "int \<Rightarrow> int \<Rightarrow> error + (int \<times> int) list" where
  "hup_batch_ranges_with_size total_length tile_size =
     batch_ranges_with_size total_length tile_size"

text \<open>The body of \<^verbatim>\<open>compute_image_mp\<close>, with the submitted function as the parameter
  \<open>work\<close>; in the source that is \<^verbatim>\<open>_inner_loop\<close>.\<close>

definition compute_image_mp_with ::
  "(real list \<Rightarrow> real list \<Rightarrow> nat \<Rightarrow> nat \<Rightarrow> nat \<Rightarrow> nat \<Rightarrow> int \<Rightarrow> error + real tile)
     \<Rightarrow> real list \<Rightarrow> real list \<Rightarrow> int \<Rightarrow> int \<Rightarrow> int \<Rightarrow> int option \<Rightarrow> (nat \<Rightarrow> nat)
     \<Rightarrow> error + fnum array2" where
  "compute_image_mp_with work xx yy max_it n_workers tile_size pool_max done_at =
     (let rows = length yy; cols = length xx in
      case hup_batch_ranges_with_size (int rows) tile_size of
        Inl e \<Rightarrow> Inl e
      | Inr row_batches \<Rightarrow>
      case hup_batch_ranges_with_size (int cols) tile_size of
        Inl e \<Rightarrow> Inl e
      | Inr col_batches \<Rightarrow>
      if pool_rejects pool_max n_workers then Inl ValueError
      else
        let future_list =
              concat (map (\<lambda>row_batch. map (\<lambda>col_batch.
                        work xx yy (nat (fst row_batch)) (nat (snd row_batch))
                                   (nat (fst col_batch)) (nat (snd col_batch)) max_it)
                      col_batches) row_batches)
        in case traverse (\<lambda>future. future) (as_completed done_at future_list) of
             Inl e \<Rightarrow> Inl e
           | Inr result_list \<Rightarrow>
               let zz = foldl paste (np_empty rows cols) result_list
               in Inr (normalize_grid zz max_it))"

definition compute_image_mp ::
  "real list \<Rightarrow> real list \<Rightarrow> int \<Rightarrow> int \<Rightarrow> int \<Rightarrow> int option \<Rightarrow> (nat \<Rightarrow> nat)
     \<Rightarrow> error + fnum array2" where
  "compute_image_mp = compute_image_mp_with inner_loop"

text \<open>\<^verbatim>\<open>mandelbrot\<close> of \<^verbatim>\<open>mandelbrot_float.py\<close>, without the \<^verbatim>\<open>np.save\<close> of the result.\<close>

definition mandelbrot_float ::
  "real \<Rightarrow> real \<Rightarrow> real \<Rightarrow> real \<Rightarrow> int \<Rightarrow> int \<Rightarrow> int \<Rightarrow> int \<Rightarrow> int option \<Rightarrow> (nat \<Rightarrow> nat)
     \<Rightarrow> error + fnum array2" where
  "mandelbrot_float xmin xmax ymin ymax steps max_it n_workers tile_size pool_max done_at =
     (case mandelbrot_axes xmin xmax ymin ymax steps of
        Inl e \<Rightarrow> Inl e
      | Inr (xx, yy) \<Rightarrow>
          if n_workers \<le> 1 then compute_image_float xx yy max_it
          else compute_image_mp xx yy max_it n_workers tile_size pool_max done_at)"

subsection \<open>\<^verbatim>\<open>polycolor.py\<close>: the class \<^verbatim>\<open>PolyColor\<close>\<close>

text \<open>
  The object is a record of its three attributes. \<open>pc_init_colors\<close> holds what
  \<^verbatim>\<open>_init_colors\<close> returned, \<open>None\<close> being Python's \<^verbatim>\<open>None\<close>.
  The global generator of \<^verbatim>\<open>np.random\<close> is the sequence of the numbers it will draw;
  \<^verbatim>\<open>np.random.rand(d0, d1)\<close> takes the next \<open>d0 * d1\<close> of them, row by row, and raises
  \<^verbatim>\<open>ValueError\<close> for a negative dimension.
\<close>

record polycolor =
  pc_order :: int
  pc_init_colors :: "real list list option"
  pc_color :: "real list list"

type_synonym rng = "nat \<Rightarrow> real"

definition np_random_rand :: "int \<Rightarrow> int \<Rightarrow> rng \<Rightarrow> error + (real list list \<times> rng)" where
  "np_random_rand d0 d1 g =
     (if d0 < 0 \<or> d1 < 0 then Inl ValueError
      else Inr (map (\<lambda>r. map (\<lambda>c. g (r * nat d1 + c)) [0..<nat d1]) [0..<nat d0],
                \<lambda>k. g (k + nat d0 * nat d1)))"

text \<open>\<^verbatim>\<open>_init_colors\<close> assigns \<^verbatim>\<open>self.color\<close> and has no \<^verbatim>\<open>return\<close>: it returns
  \<^verbatim>\<open>None\<close>. The result is the returned value, the object and the generator.\<close>

definition init_colors ::
  "polycolor \<Rightarrow> rng \<Rightarrow> error + (real list list option \<times> polycolor \<times> rng)" where
  "init_colors self g =
     (case np_random_rand 3 (pc_order self + 1) g of
        Inl e \<Rightarrow> Inl e
      | Inr (c, g') \<Rightarrow> Inr (None, self\<lparr>pc_color := c\<rparr>, g'))"

text \<open>\<^verbatim>\<open>__init__\<close>: before the call of \<^verbatim>\<open>_init_colors\<close> the object has the attribute
  \<^verbatim>\<open>order\<close> only; the two other fields of the record start empty.\<close>

definition PolyColor :: "int \<Rightarrow> rng \<Rightarrow> error + (polycolor \<times> rng)" where
  "PolyColor order g =
     (case init_colors \<lparr>pc_order = order, pc_init_colors = None, pc_color = []\<rparr> g of
        Inl e \<Rightarrow> Inl e
      | Inr (ret, self, g') \<Rightarrow> Inr (self\<lparr>pc_init_colors := ret\<rparr>, g'))"

text \<open>The input of \<^verbatim>\<open>apply\<close>: a two-dimensional array of numbers, or an array whose
  \<^verbatim>\<open>ndim\<close> is not 2, of which \<^verbatim>\<open>apply\<close> reads nothing else.\<close>

datatype ndarray = Array2 "real list list" | ArrayOther

text \<open>
  \<^verbatim>\<open>_color_map_channel\<close> adds, for \<open>i\<close> from \<open>0\<close> to \<open>order\<close>, two terms to every element
  of a buffer of zeros; \<open>channel_value\<close> is the element computed from the element \<open>v\<close> of
  the data. \<open>sin\<close> and \<open>pi\<close> are exact here, so the value can differ from the source's
  by its rounding errors; it is the same for equal elements of the data, as in the source.
\<close>

definition channel_value :: "real list \<Rightarrow> int \<Rightarrow> real \<Rightarrow> real" where
  "channel_value coeffs order v =
     foldl (\<lambda>buffer i.
              let freq = (coeffs ! i) ^ i * 2 * pi
              in buffer + sin (freq * v) + (coeffs ! i) * v ^ i)
           0 [0..<nat (order + 1)]"

text \<open>\<^verbatim>\<open>_normalize\<close>: \<^verbatim>\<open>np.min\<close> and \<^verbatim>\<open>np.max\<close> raise \<^verbatim>\<open>ValueError\<close> on an array
  without elements; the division is numpy's.\<close>

definition normalize_minmax :: "real list list \<Rightarrow> error + fnum list list" where
  "normalize_minmax data =
     (if concat data = [] then Inl ValueError
      else
        let mn = Min (set (concat data));
            mx = Max (set (concat data))
        in Inr (map (map (\<lambda>x. np_divide (x - mn) (mx - mn))) data))"

definition color_map_channel :: "polycolor \<Rightarrow> real list list \<Rightarrow> nat \<Rightarrow> error + fnum list list" where
  "color_map_channel self data channel =
     normalize_minmax (map (map (channel_value (pc_color self ! channel) (pc_order self))) data)"

text \<open>
  \<^verbatim>\<open>_cvtcolor\<close>: \<^verbatim>\<open>255 * data\<close>, then \<^verbatim>\<open>astype(np.uint8)\<close>. The conversion truncates a
  number between \<open>-1\<close> and \<open>256\<close>; on any other value (\<^verbatim>\<open>nan\<close> among them) its result is
  not defined by numpy.
\<close>

datatype uint8 = U8 nat | CastUndefined

definition cvtcolor_value :: "fnum \<Rightarrow> uint8" where
  "cvtcolor_value x =
     (case x of
        Fin v \<Rightarrow> (if - 1 < 255 * v \<and> 255 * v < 256 then U8 (nat \<lfloor>255 * v\<rfloor>) else CastUndefined)
      | _ \<Rightarrow> CastUndefined)"

definition cvtcolor :: "fnum list list list \<Rightarrow> uint8 list list list" where
  "cvtcolor data = map (map (map cvtcolor_value)) data"

text \<open>The buffer of shape \<open>(rows, cols, 3)\<close> after the three assignments
  \<^verbatim>\<open>buffer[:, :, channel] = ...\<close>: the element \<open>(r, c, channel)\<close> is the element \<open>(r, c)\<close>
  of the channel.\<close>

definition stack_channels :: "real list list \<Rightarrow> fnum list list list \<Rightarrow> fnum list list list" where
  "stack_channels data channels =
     map (\<lambda>r. map (\<lambda>c. map (\<lambda>channel. channels ! channel ! r ! c) [0..<3])
                 [0..<length (data ! r)])
         [0..<length data]"

text \<open>
  \<^verbatim>\<open>apply\<close>: the coefficients are drawn first, then the number of dimensions is checked,
  then the three channels are computed and converted. The result is the image (rows of
  pixels of three channel values) or the exception, with the object and the generator as
  the call leaves them.
\<close>

definition apply_field ::
  "polycolor \<Rightarrow> ndarray \<Rightarrow> rng \<Rightarrow> (error + uint8 list list list) \<times> polycolor \<times> rng" where
  "apply_field self data g =
     (case init_colors self g of
        Inl e \<Rightarrow> (Inl e, self, g)
      | Inr (ret, self', g') \<Rightarrow>
          (case data of
             ArrayOther \<Rightarrow> (Inl ValueError, self', g')
           | Array2 d \<Rightarrow>
               (case traverse (color_map_channel self' d) [0..<3] of
                  Inl e \<Rightarrow> (Inl e, self', g')
                | Inr channels \<Rightarrow> (Inr (cvtcolor (stack_channels d channels)), self', g'))))"

subsection \<open>Predicates and fixtures of the statements\<close>

text \<open>\<open>unit_grid n zz\<close>: the grid \<open>zz\<close> has shape \<open>(n, n)\<close>, every slot is written and every
  value lies in \<open>[0, 1]\<close>.\<close>

definition unit_grid :: "nat \<Rightarrow> real array2 \<Rightarrow> bool" where
  "unit_grid n zz \<longleftrightarrow>
     length zz = n \<and>
     (\<forall>row \<in> set zz. length row = n \<and> (\<forall>slot \<in> set row. \<exists>v. slot = Some v \<and> 0 \<le> v \<and> v \<le> 1))"

text \<open>A worker that raises in the tile whose first row is \<open>r\<close> and computes every other
  tile as \<^verbatim>\<open>compute_tile\<close> does.\<close>

definition failing_at ::
  "nat \<Rightarrow> real list \<Rightarrow> real list \<Rightarrow> nat \<Rightarrow> nat \<Rightarrow> nat \<Rightarrow> nat \<Rightarrow> int \<Rightarrow> error + real tile" where
  "failing_at r xx yy rmin rmax cmin cmax depth =
     (if rmin = r then Inl (WorkerError ''boom'')
      else compute_tile xx yy rmin rmax cmin cmax depth)"

section \<open>Properties\<close>

subsection \<open>The partition into ranges\<close>

lemma chained_append:
  "chained a (xs @ ys) c \<longleftrightarrow> (\<exists>b. chained a xs b \<and> chained b ys c)"
  by (induction xs arbitrary: a) auto

lemma chained_le: "chained a rs b \<Longrightarrow> a \<le> b"
  by (induction rs arbitrary: a) force+

lemma chained_within:
  "chained a rs b \<Longrightarrow> r \<in> set rs \<Longrightarrow> a \<le> fst r \<and> fst r < snd r \<and> snd r \<le> b"
proof (induction rs arbitrary: a)
  case Nil
  then show ?case by simp
next
  case (Cons x rs)
  from Cons.prems(1) have h: "fst x = a" "fst x < snd x" "chained (snd x) rs b" by auto
  from chained_le[OF h(3)] have le: "snd x \<le> b" .
  show ?case
  proof (cases "r = x")
    case True
    then show ?thesis using h le by simp
  next
    case False
    then have "r \<in> set rs" using Cons.prems(2) by simp
    from Cons.IH[OF h(3) this] show ?thesis using h by simp
  qed
qed

lemma chained_union:
  "chained a rs b \<Longrightarrow> (\<Union>r \<in> set rs. range_set r) = {a ..< b}"
proof (induction rs arbitrary: a)
  case Nil
  then show ?case by simp
next
  case (Cons x rs)
  from Cons.prems have h: "fst x = a" "fst x < snd x" "chained (snd x) rs b" by auto
  from chained_le[OF h(3)] have le: "snd x \<le> b" .
  have "(\<Union>r \<in> set (x # rs). range_set r) = range_set x \<union> {snd x ..< b}"
    using Cons.IH[OF h(3)] by simp
  also have "\<dots> = {a ..< b}" using h le by (auto simp: range_set_def)
  finally show ?case .
qed

lemma chained_sorted:
  "chained a rs b \<Longrightarrow> sorted_wrt (\<lambda>r s. snd r \<le> fst s) rs"
proof (induction rs arbitrary: a)
  case Nil
  then show ?case by simp
next
  case (Cons x rs)
  from Cons.prems have h: "chained (snd x) rs b" by auto
  have "\<forall>s \<in> set rs. snd x \<le> fst s" using chained_within[OF h] by blast
  then show ?case using Cons.IH[OF h] by simp
qed

lemma sorted_ranges_disjoint:
  assumes "sorted_wrt (\<lambda>r s. snd r \<le> fst s) rs"
  shows "pairwise_disjoint rs"
proof -
  have lt: "range_set (rs ! i) \<inter> range_set (rs ! j) = {}" if "i < j" "j < length rs" for i j
  proof -
    have "snd (rs ! i) \<le> fst (rs ! j)" using assms that by (simp add: sorted_wrt_iff_nth_less)
    then show ?thesis by (auto simp: range_set_def)
  qed
  show ?thesis unfolding pairwise_disjoint_def
  proof (intro allI impI)
    fix i j assume "i < length rs" "j < length rs" "i \<noteq> j"
    then consider "i < j" | "j < i" by linarith
    then show "range_set (rs ! i) \<inter> range_set (rs ! j) = {}"
      using lt[of i j] lt[of j i] \<open>i < length rs\<close> \<open>j < length rs\<close> by (cases) auto
  qed
qed

lemma chained_full_batches:
  "0 < B \<Longrightarrow> k \<le> n \<Longrightarrow>
   chained (int k * B) (map (\<lambda>i. (int i * B, (int i + 1) * B)) [k..<n]) (int n * B)"
proof (induction "n - k" arbitrary: k)
  case 0
  then show ?case by simp
next
  case (Suc d)
  then have lt: "k < n" and d: "d = n - Suc k" by auto
  have S: "int (Suc k) = int k + 1" by simp
  have IH: "chained ((int k + 1) * B) (map (\<lambda>i. (int i * B, (int i + 1) * B)) [Suc k..<n]) (int n * B)"
    using Suc.hyps(1)[OF d Suc.prems(1)] lt unfolding S by simp
  have less: "int k * B < (int k + 1) * B" using Suc.prems(1) by (simp add: algebra_simps)
  have "[k..<n] = k # [Suc k..<n]" using lt by (rule upt_conv_Cons)
  then show ?case using IH less by simp
qed

lemma chained_last: "chained a rs b \<Longrightarrow> rs \<noteq> [] \<Longrightarrow> snd (last rs) = b"
  by (induction rs arbitrary: a) auto

text \<open>
  Claim C1. For every \<open>total_length \<ge> 1\<close> and every \<open>tile_size \<ge> 1\<close>,
  \<^verbatim>\<open>batch_ranges_with_size\<close> returns a list of half-open ranges that is not empty, whose
  ranges are non-empty and lie in \<open>[0, total_length)\<close>, each starting where the previous one
  ends (so they are sorted, pairwise disjoint and cover \<open>[0, total_length)\<close> exactly); no
  range is longer than \<open>tile_size\<close> and every range but the last has length \<open>tile_size\<close>.
  If \<open>tile_size \<ge> total_length\<close> the list is the single range \<open>[0, total_length)\<close>; if
  \<open>total_length\<close> is larger and not a multiple of \<open>tile_size\<close>, the full ranges are followed
  by one remainder range of length \<open>total_length mod tile_size\<close>.
\<close>

theorem batch_ranges_with_size_partition:
  assumes N: "1 \<le> N" and T: "1 \<le> tile_size"
  shows "\<exists>rs. batch_ranges_with_size N tile_size = Inr rs
           \<and> rs \<noteq> [] \<and> chained 0 rs N
           \<and> (\<forall>r \<in> set rs. 0 \<le> fst r \<and> fst r < snd r \<and> snd r \<le> N \<and> range_len r \<le> tile_size)
           \<and> sorted_wrt (\<lambda>r s. snd r \<le> fst s) rs
           \<and> pairwise_disjoint rs
           \<and> covers rs N
           \<and> (\<forall>r \<in> set (butlast rs). range_len r = tile_size)
           \<and> (N \<le> tile_size \<longrightarrow> rs = [(0, N)])
           \<and> (tile_size < N \<and> N mod tile_size \<noteq> 0 \<longrightarrow>
                  length rs = nat (N div tile_size) + 1
                \<and> last rs = (tile_size * (N div tile_size), N)
                \<and> range_len (last rs) = N mod tile_size)
           \<and> (tile_size < N \<and> N mod tile_size = 0 \<longrightarrow>
                  length rs = nat (N div tile_size)
                \<and> (\<forall>r \<in> set rs. range_len r = tile_size))"
proof -
  define q where "q = N div tile_size"
  define full where "full = map (\<lambda>i. (int i * tile_size, (int i + 1) * tile_size)) [0..<nat q]"
  have Tpos: "0 < tile_size" using T by simp
  have q0: "0 \<le> q" unfolding q_def using N Tpos by (simp add: pos_imp_zdiv_nonneg_iff)
  have qN: "tile_size * q \<le> N" unfolding q_def using Tpos by (metis mult_div_mod_eq le_add_same_cancel1 pos_mod_sign)
  have full_chain: "chained 0 full (tile_size * q)"
    using chained_full_batches[OF Tpos, of 0 "nat q"] q0 by (simp add: full_def mult.commute)
  have full_len: "\<forall>r \<in> set full. range_len r = tile_size"
    by (auto simp: full_def range_len_def algebra_simps)
  have full_length: "length full = nat q" by (simp add: full_def)
  have common: "rs \<noteq> [] \<and> chained 0 rs N
           \<and> (\<forall>r \<in> set rs. 0 \<le> fst r \<and> fst r < snd r \<and> snd r \<le> N \<and> range_len r \<le> tile_size)
           \<and> sorted_wrt (\<lambda>r s. snd r \<le> fst s) rs
           \<and> pairwise_disjoint rs
           \<and> covers rs N"
    if ne: "rs \<noteq> []" and ch: "chained 0 rs N" and len: "\<forall>r \<in> set rs. range_len r \<le> tile_size" for rs
  proof -
    have "\<forall>r \<in> set rs. 0 \<le> fst r \<and> fst r < snd r \<and> snd r \<le> N \<and> range_len r \<le> tile_size"
      using chained_within[OF ch] len by blast
    moreover have "sorted_wrt (\<lambda>r s. snd r \<le> fst s) rs" by (rule chained_sorted[OF ch])
    moreover from this have "pairwise_disjoint rs" by (rule sorted_ranges_disjoint)
    moreover have "covers rs N" unfolding covers_def by (rule chained_union[OF ch])
    ultimately show ?thesis using ne ch by blast
  qed
  consider (single) "N \<le> tile_size" | (rem) "tile_size < N" "tile_size * q < N"
    | (exact) "tile_size < N" "tile_size * q = N"
    using qN by linarith
  then show ?thesis
  proof cases
    case single
    have rs: "batch_ranges_with_size N tile_size = Inr [(0, N)]"
      using single by (simp add: batch_ranges_with_size_def)
    define rs where "rs = [(0::int, N)]"
    have ch: "chained 0 rs N" using N by (simp add: rs_def)
    have len: "\<forall>r \<in> set rs. range_len r \<le> tile_size"
      using single by (simp add: range_len_def rs_def)
    have ne: "rs \<noteq> []" by (simp add: rs_def)
    have "rs \<noteq> [] \<and> chained 0 rs N
           \<and> (\<forall>r \<in> set rs. 0 \<le> fst r \<and> fst r < snd r \<and> snd r \<le> N \<and> range_len r \<le> tile_size)
           \<and> sorted_wrt (\<lambda>r s. snd r \<le> fst s) rs
           \<and> pairwise_disjoint rs
           \<and> covers rs N"
      by (rule common[OF ne ch len])
    moreover have "butlast rs = []" by (simp add: rs_def)
    ultimately show ?thesis using rs single by (simp add: rs_def)
  next
    case rem
    define rs where "rs = full @ [(tile_size * q, N)]"
    have rs: "batch_ranges_with_size N tile_size = Inr rs"
      using rem Tpos by (simp add: batch_ranges_with_size_def Let_def q_def full_def rs_def)
    have ch: "chained 0 rs N" unfolding rs_def chained_append
      using full_chain rem(2) by (intro exI[of _ "tile_size * q"]) simp
    have len: "\<forall>r \<in> set rs. range_len r \<le> tile_size"
    proof -
      have "N - tile_size * q = N mod tile_size" unfolding q_def by (simp add: minus_mult_div_eq_mod)
      also have "\<dots> < tile_size" using Tpos by simp
      finally show ?thesis using full_len by (auto simp: rs_def range_len_def)
    qed
    have modne: "N mod tile_size \<noteq> 0" using rem(2) unfolding q_def
      by (metis mult_div_mod_eq add.right_neutral less_irrefl)
    have "rs \<noteq> []" by (simp add: rs_def)
    from common[OF this ch len]
    have c: "rs \<noteq> [] \<and> chained 0 rs N
           \<and> (\<forall>r \<in> set rs. 0 \<le> fst r \<and> fst r < snd r \<and> snd r \<le> N \<and> range_len r \<le> tile_size)
           \<and> sorted_wrt (\<lambda>r s. snd r \<le> fst s) rs
           \<and> pairwise_disjoint rs
           \<and> covers rs N" .
    have bl: "\<forall>r \<in> set (butlast rs). range_len r = tile_size"
      using full_len by (simp add: rs_def)
    have l: "length rs = nat (N div tile_size) + 1" "last rs = (tile_size * (N div tile_size), N)"
      "range_len (last rs) = N mod tile_size"
      by (simp_all add: rs_def full_length q_def range_len_def minus_mult_div_eq_mod)
    show ?thesis using rs c bl l rem(1) modne by auto
  next
    case exact
    have rs: "batch_ranges_with_size N tile_size = Inr full"
      using exact Tpos by (simp add: batch_ranges_with_size_def Let_def q_def full_def)
    have ch: "chained 0 full N" using full_chain exact(2) by simp
    have len: "\<forall>r \<in> set full. range_len r \<le> tile_size" using full_len by simp
    have "0 < q" using exact N Tpos by (metis q0 less_le mult_zero_right not_one_le_zero)
    then have ne: "full \<noteq> []" by (simp add: full_def)
    have mod0: "N mod tile_size = 0" using exact(2) by (metis mod_mult_self1_is_0)
    from common[OF ne ch len]
    have c: "full \<noteq> [] \<and> chained 0 full N
           \<and> (\<forall>r \<in> set full. 0 \<le> fst r \<and> fst r < snd r \<and> snd r \<le> N \<and> range_len r \<le> tile_size)
           \<and> sorted_wrt (\<lambda>r s. snd r \<le> fst s) full
           \<and> pairwise_disjoint full
           \<and> covers full N" .
    have bl: "\<forall>r \<in> set (butlast full). range_len r = tile_size"
      using full_len by (meson in_set_butlastD)
    have l: "length full = nat (N div tile_size)" by (simp add: full_length q_def)
    show ?thesis using rs c bl l exact(1) mod0 full_len by auto
  qed
qed


theorem batch_ranges_with_size_partition_witness:
  "(1::int) \<le> 10 \<and> (1::int) \<le> 4 \<and>
   (\<exists>rs. batch_ranges_with_size 10 4 = Inr rs \<and> rs \<noteq> [] \<and> chained 0 rs 10
      \<and> pairwise_disjoint rs \<and> covers rs 10 \<and> length rs = 3 \<and> last rs = (8, 10))"
  using batch_ranges_with_size_partition[of 10 4] by auto

subsection \<open>The escape-time evaluators\<close>

lemma escape_loop_origin: "0 < thr \<Longrightarrow> escape_loop thr 0 0 0 0 i k = None"
  by (induction k arbitrary: i) simp_all

lemma escape_loop_complex_origin: "escape_loop_complex 0 0 i k = None"
  by (induction k arbitrary: i) simp_all

text \<open>The loop returns an index it has reached.\<close>

lemma escape_loop_index: "escape_loop thr cx cy x y i k = Some j \<Longrightarrow> i \<le> j"
  by (induction k arbitrary: x y i) (auto simp: Let_def split: if_splits dest: Suc_leD)

lemma escape_loop_first_iff:
  assumes "0 < k"
  shows "escape_loop thr cx cy 0 0 0 k = Some 0 \<longleftrightarrow> thr < cx * cx + cy * cy"
proof -
  obtain m where k: "k = Suc m" using assms by (cases k) auto
  have "escape_loop thr cx cy cx cy (Suc 0) m \<noteq> Some 0"
    using escape_loop_index[of thr cx cy cx cy "Suc 0" m 0] by auto
  then show ?thesis by (simp add: k)
qed

lemma cmod_gt_2_iff: "2 < cmod (Complex cx cy) \<longleftrightarrow> 4 < cx * cx + cy * cy"
proof -
  have "2 < sqrt (cx\<^sup>2 + cy\<^sup>2) \<longleftrightarrow> 2\<^sup>2 < cx\<^sup>2 + cy\<^sup>2"
    by (metis real_sqrt_less_iff real_sqrt_abs abs_numeral)
  then show ?thesis by (simp add: cmod_def power2_eq_square)
qed

text \<open>
  Claim C7. For every \<open>depth \<ge> 1\<close> and every positive escape threshold, the evaluator at the
  origin never escapes: the loop runs all its iterations (\<open>None\<close>) and \<^verbatim>\<open>fn_test(0, 0, depth)\<close>
  returns the did-not-escape value, \<open>0\<close> in \<^verbatim>\<open>mandelbrot.py\<close> and \<open>max_it\<close> in
  \<^verbatim>\<open>mandelbrot_float.py\<close> (and in \<^verbatim>\<open>mandelbrot_complex.py\<close>).
\<close>

theorem origin_never_escapes:
  assumes "1 \<le> depth" and "0 < thr"
  shows "escape_loop thr 0 0 0 0 0 (nat depth) = None
       \<and> fn_test 0 0 depth = 0
       \<and> fn_test_float 0 0 depth = depth
       \<and> fn_test_complex 0 depth = depth"
  using assms by (simp add: fn_test_def fn_test_float_def fn_test_complex_def
      escape_loop_origin escape_loop_complex_origin)

theorem origin_never_escapes_witness:
  "(1::int) \<le> 5 \<and> (0::real) < 4
   \<and> escape_loop 4 0 0 0 0 0 (nat 5) = None \<and> fn_test 0 0 5 = 0 \<and> fn_test_float 0 0 5 = 5
   \<and> fn_test_complex 0 5 = 5"
  using origin_never_escapes[of 5 4] by simp

text \<open>
  Claim C9. In \<^verbatim>\<open>mandelbrot.py\<close>, for every \<open>depth \<ge> 1\<close> and every point, when the escape
  test succeeds in the iteration with index \<open>0\<close> \<^verbatim>\<open>fn_test\<close> returns \<open>0 / depth = 0\<close>, the
  value it also returns when the loop ends without an escape. The point \<open>(3, 0)\<close> escapes
  at index \<open>0\<close> and the origin never escapes, so \<^verbatim>\<open>fn_test(3, 0, depth)\<close> and
  \<^verbatim>\<open>fn_test(0, 0, depth)\<close> are both \<open>0\<close>.
\<close>

theorem first_iteration_escape_returns_zero:
  assumes "1 \<le> depth"
  shows "(escape_loop 4 cx cy 0 0 0 (nat depth) = Some 0 \<longrightarrow> fn_test cx cy depth = 0)
       \<and> (escape_loop 4 cx cy 0 0 0 (nat depth) = None \<longrightarrow> fn_test cx cy depth = 0)
       \<and> escape_loop 4 3 0 0 0 0 (nat depth) = Some 0
       \<and> fn_test 3 0 depth = 0
       \<and> escape_loop 4 0 0 0 0 0 (nat depth) = None
       \<and> fn_test 0 0 depth = 0
       \<and> fn_test 3 0 depth = fn_test 0 0 depth"
  using assms escape_loop_first_iff[of "nat depth" 4 3 0]
  by (simp add: fn_test_def escape_loop_origin)

theorem first_iteration_escape_returns_zero_witness:
  "(1::int) \<le> 4
   \<and> escape_loop 4 5 0 0 0 0 (nat 4) = Some 0 \<and> fn_test 5 0 4 = 0
   \<and> escape_loop 4 0 0 0 0 0 (nat 4) = None \<and> fn_test 0 0 4 = 0
   \<and> fn_test 3 0 4 = 0"
  using first_iteration_escape_returns_zero[of 4 5 0] first_iteration_escape_returns_zero[of 4 0 0]
  by (simp add: eval_nat_numeral)

text \<open>
  Claim C5. Every point with \<open>|c| > 2\<close> is to escape in the first iteration in every
  variant. \<^verbatim>\<open>fn_test\<close> of \<^verbatim>\<open>mandelbrot_float.py\<close> tests \<^verbatim>\<open>xn*xn + yn*yn > 16\<close> under the
  comment \<^verbatim>\<open>If the length of z > 2, break\<close>. At \<open>c = (3, 0)\<close>, where \<open>|c| = 3\<close>, the
  first iteration computes \<open>9\<close>, which is not above \<open>16\<close>: for every \<open>max_it \<ge> 2\<close> the test
  succeeds in the second iteration and the function returns \<open>1\<close>, and for \<open>max_it = 1\<close> the
  loop ends without an escape and the function returns \<open>max_it\<close>. The tests of
  \<^verbatim>\<open>mandelbrot.py\<close> (\<open>> 4\<close>) and \<^verbatim>\<open>mandelbrot_complex.py\<close> (\<open>|z| > 2\<close>) succeed at this
  point in the first iteration. All numbers computed here (3, 9, 12, 144) are integers.
\<close>

theorem float_evaluator_escapes_in_second_iteration:
  assumes "2 \<le> max_it"
  shows "2 < cmod (Complex 3 0)
       \<and> escape_loop 16 3 0 0 0 0 (nat max_it) = Some 1
       \<and> fn_test_float 3 0 max_it = 1
       \<and> escape_loop 16 3 0 0 0 0 (nat 1) = None
       \<and> fn_test_float 3 0 1 = 1
       \<and> escape_loop 4 3 0 0 0 0 (nat max_it) = Some 0
       \<and> escape_loop_complex (Complex 3 0) 0 0 (nat max_it) = Some 0"
proof -
  have "nat max_it = Suc (Suc (nat max_it - 2))" using assms by linarith
  then obtain j where j: "nat max_it = Suc (Suc j)" ..
  have c: "2 < cmod (Complex 3 0)" by (simp add: cmod_gt_2_iff)
  show ?thesis using c by (simp add: j fn_test_float_def)
qed

theorem float_evaluator_escapes_in_second_iteration_witness:
  "(2::int) \<le> 50 \<and> 2 < cmod (Complex 3 0)
   \<and> escape_loop 16 3 0 0 0 0 (nat 50) = Some 1 \<and> fn_test_float 3 0 50 = 1
   \<and> fn_test_float 3 0 1 = 1
   \<and> escape_loop 4 3 0 0 0 0 (nat 50) = Some 0"
  using float_evaluator_escapes_in_second_iteration[of 50] by simp

subsection \<open>The coordinate axes\<close>

text \<open>
  Claim C6 says that with resolution 1 the single sample of the imaginary axis is \<open>ymin\<close>.
  The imaginary axis is \<^verbatim>\<open>np.linspace(ymax, ymin, image_size)\<close>, whose single sample is
  its start \<open>ymax\<close>: for the box \<open>(-2, 1, -1.5, 1.5)\<close> it is \<open>1.5\<close>, not \<open>-1.5\<close>.
\<close>

theorem single_sample_axes_counterexample:
  "mandelbrot_axes (- 2) 1 (- 3 / 2) (3 / 2) 1 = Inr ([- 2], [3 / 2])
   \<and> [3 / 2] \<noteq> [- 3 / 2 :: real]"
  by (simp add: mandelbrot_axes_def linspace_def)

text \<open>
  Claim C6, amended. With resolution 1 each axis has a single sample, the start of its
  \<^verbatim>\<open>np.linspace\<close> call: \<open>xmin\<close> for the real axis and \<open>ymax\<close> for the imaginary axis.
\<close>

theorem single_sample_axes:
  "mandelbrot_axes xmin xmax ymin ymax 1 = Inr ([xmin], [ymax])"
  by (simp add: mandelbrot_axes_def linspace_def)

subsection \<open>\<^verbatim>\<open>PolyColor\<close>\<close>

lemma upt_3: "[0..<3] = [0, 1, 2]"
  by (simp add: upt_rec)

lemma concat_replicate_const:
  "0 < h \<Longrightarrow> 0 < w \<Longrightarrow> set (concat (replicate h (replicate w x))) = {x}"
  by auto

lemma normalize_minmax_const:
  assumes "0 < h" "0 < w"
  shows "normalize_minmax (replicate h (replicate w x)) = Inr (replicate h (replicate w NaN))"
proof -
  have s: "set (concat (replicate h (replicate w x))) = {x}"
    using assms by (rule concat_replicate_const)
  have ne: "concat (replicate h (replicate w x)) \<noteq> []"
    using s by (metis empty_set insert_not_empty)
  show ?thesis
    unfolding normalize_minmax_def Let_def s using ne
    by (simp add: np_divide_def)
qed

lemma color_map_channel_const:
  assumes "0 < h" "0 < w"
  shows "color_map_channel self (replicate h (replicate w v)) ch = Inr (replicate h (replicate w NaN))"
  unfolding color_map_channel_def by (simp add: normalize_minmax_const[OF assms])

lemma stack_channels_const:
  "stack_channels (replicate h (replicate w v)) [replicate h (replicate w x),
       replicate h (replicate w x), replicate h (replicate w x)]
     = replicate h (replicate w [x, x, x])"
proof (rule nth_equalityI)
  show "length (stack_channels (replicate h (replicate w v)) [replicate h (replicate w x),
       replicate h (replicate w x), replicate h (replicate w x)]) = length (replicate h (replicate w [x, x, x]))"
    by (simp add: stack_channels_def)
next
  fix r
  assume "r < length (stack_channels (replicate h (replicate w v)) [replicate h (replicate w x),
       replicate h (replicate w x), replicate h (replicate w x)])"
  then have r: "r < h" by (simp add: stack_channels_def)
  have "map (\<lambda>c. map (\<lambda>channel. [replicate h (replicate w x),
       replicate h (replicate w x), replicate h (replicate w x)] ! channel ! r ! c) [0..<3]) [0..<w]
      = map (\<lambda>c. [x, x, x]) [0..<w]"
    using r by (intro map_cong[OF refl]) (simp add: upt_3)
  then show "stack_channels (replicate h (replicate w v)) [replicate h (replicate w x),
       replicate h (replicate w x), replicate h (replicate w x)] ! r = replicate h (replicate w [x, x, x]) ! r"
    using r by (simp add: stack_channels_def map_replicate_trivial)
qed

text \<open>
  Claim C4 says that on a field of identical values the normalisation of a channel with
  \<open>max = min\<close> is handled explicitly and no \<^verbatim>\<open>nan\<close> reaches the output.
  \<^verbatim>\<open>_normalize\<close> has no such case: on every constant field with at least one element (and
  \<open>order \<ge> -1\<close>, so that the coefficients can be drawn) \<^verbatim>\<open>apply\<close> raises nothing, every
  channel is constant, \<^verbatim>\<open>_normalize\<close> divides \<open>0\<close> by \<open>0\<close> and returns \<^verbatim>\<open>nan\<close> in every
  element, and every value of the returned image is the conversion of \<^verbatim>\<open>nan\<close> to
  \<^verbatim>\<open>uint8\<close>, which is not defined.
\<close>

theorem apply_constant_field:
  assumes "0 < h" "0 < w" "- 1 \<le> pc_order self"
  shows "\<exists>self' g'.
           apply_field self (Array2 (replicate h (replicate w v))) g
             = (Inr (replicate h (replicate w [CastUndefined, CastUndefined, CastUndefined])), self', g')
         \<and> (\<forall>ch. color_map_channel self' (replicate h (replicate w v)) ch
                    = Inr (replicate h (replicate w NaN)))"
proof -
  obtain c g' where r: "np_random_rand 3 (pc_order self + 1) g = Inr (c, g')"
    using assms(3) by (simp add: np_random_rand_def)
  let ?self = "self\<lparr>pc_color := c\<rparr>"
  have ch: "color_map_channel ?self (replicate h (replicate w v)) ch = Inr (replicate h (replicate w NaN))" for ch
    by (rule color_map_channel_const[OF assms(1,2)])
  have "apply_field self (Array2 (replicate h (replicate w v))) g
             = (Inr (replicate h (replicate w [CastUndefined, CastUndefined, CastUndefined])), ?self, g')"
    unfolding apply_field_def init_colors_def r
    by (simp add: upt_3 ch stack_channels_const cvtcolor_def cvtcolor_value_def)
  then show ?thesis using ch by blast
qed

theorem apply_constant_field_witness:
  "fst (apply_field \<lparr>pc_order = 1, pc_init_colors = None, pc_color = []\<rparr> (Array2 [[1 / 2]]) (\<lambda>k. 1 / 3))
     = Inr [[[CastUndefined, CastUndefined, CastUndefined]]]"
  using apply_constant_field[of 1 1 "\<lparr>pc_order = 1, pc_init_colors = None, pc_color = []\<rparr>" "1 / 2" "\<lambda>k. 1 / 3"]
  by auto

text \<open>
  Claim C10. \<^verbatim>\<open>apply\<close> draws the coefficients anew before anything else: its result does
  not depend on the coefficients the object held before the call; when the draw succeeds the
  object holds the whole new array of 3 rows of \<open>order + 1\<close> coefficients after the call,
  whatever the data. \<^verbatim>\<open>_init_colors\<close> returns \<^verbatim>\<open>None\<close>, so the attribute
  \<^verbatim>\<open>init_colors\<close> of every constructed object is \<^verbatim>\<open>None\<close>.
\<close>

theorem apply_resamples_coefficients:
  "fst (apply_field (self\<lparr>pc_color := c1\<rparr>) data g) = fst (apply_field (self\<lparr>pc_color := c2\<rparr>) data g)
   \<and> (\<forall>c g'. np_random_rand 3 (pc_order self + 1) g = Inr (c, g') \<longrightarrow>
          snd (apply_field self data g) = (self\<lparr>pc_color := c\<rparr>, g')
        \<and> length c = 3 \<and> (\<forall>row \<in> set c. length row = nat (pc_order self + 1)))
   \<and> (\<forall>obj g'. PolyColor order g = Inr (obj, g') \<longrightarrow> pc_init_colors obj = None)"
proof (intro conjI allI impI)
  show "fst (apply_field (self\<lparr>pc_color := c1\<rparr>) data g) = fst (apply_field (self\<lparr>pc_color := c2\<rparr>) data g)"
    by (auto simp: apply_field_def init_colors_def split: sum.splits ndarray.splits prod.splits)
next
  fix c g' assume r: "np_random_rand 3 (pc_order self + 1) g = Inr (c, g')"
  show "snd (apply_field self data g) = (self\<lparr>pc_color := c\<rparr>, g')"
    by (auto simp: apply_field_def init_colors_def r split: sum.splits ndarray.splits prod.splits)
  from r show "length c = 3"
    by (auto simp: np_random_rand_def split: if_splits)
  from r show "\<forall>row \<in> set c. length row = nat (pc_order self + 1)"
    by (auto simp: np_random_rand_def split: if_splits)
next
  fix obj g' assume "PolyColor order g = Inr (obj, g')"
  then show "pc_init_colors obj = None"
    by (auto simp: PolyColor_def init_colors_def split: sum.splits prod.splits)
qed

theorem apply_resamples_coefficients_witness:
  "fst (apply_field \<lparr>pc_order = 1, pc_init_colors = None, pc_color = [[0, 0], [0, 0], [0, 0]]\<rparr> (Array2 [[0, 1]]) (\<lambda>k. real k))
   = fst (apply_field \<lparr>pc_order = 1, pc_init_colors = None, pc_color = [[1, 1], [1, 1], [1, 1]]\<rparr> (Array2 [[0, 1]]) (\<lambda>k. real k))
   \<and> np_random_rand 3 (1 + 1) (\<lambda>k. real k) = Inr ([[0, 1], [2, 3], [4, 5]], \<lambda>k. real (k + 6))
   \<and> snd (apply_field \<lparr>pc_order = 1, pc_init_colors = None, pc_color = []\<rparr> (Array2 [[0, 1]]) (\<lambda>k. real k))
       = (\<lparr>pc_order = 1, pc_init_colors = None, pc_color = [[0, 1], [2, 3], [4, 5]]\<rparr>, \<lambda>k. real (k + 6))
   \<and> PolyColor 1 (\<lambda>k. real k) = Inr (\<lparr>pc_order = 1, pc_init_colors = None, pc_color = [[0, 1], [2, 3], [4, 5]]\<rparr>, \<lambda>k. real (k + 6))
   \<and> pc_init_colors \<lparr>pc_order = 1, pc_init_colors = None, pc_color = [[0, 1], [2, 3], [4, 5]]\<rparr> = None"
proof -
  let ?obj = "\<lparr>pc_order = 1, pc_init_colors = None, pc_color = []\<rparr>"
  have r: "np_random_rand 3 (1 + 1) (\<lambda>k. real k) = Inr ([[0, 1], [2, 3], [4, 5]], \<lambda>k. real (k + 6))"
    by (simp add: np_random_rand_def upt_3 upt_rec)
  have p: "PolyColor 1 (\<lambda>k. real k) = Inr (\<lparr>pc_order = 1, pc_init_colors = None, pc_color = [[0, 1], [2, 3], [4, 5]]\<rparr>, \<lambda>k. real (k + 6))"
    by (simp add: PolyColor_def init_colors_def np_random_rand_def upt_3 upt_rec)
  show ?thesis
    using apply_resamples_coefficients[where self = ?obj and ?c1.0 = "[[0, 0], [0, 0], [0, 0]]"
        and data = "Array2 [[0, 1]]" and g = "\<lambda>k. real k" and ?c2.0 = "[[1, 1], [1, 1], [1, 1]]"
        and order = 1] r p
    by simp
qed

subsection \<open>Loops that stop at the first exception\<close>

lemma traverse_map_Inr: "traverse (\<lambda>x. Inr (f x)) xs = Inr (map f xs)"
  by (induction xs) simp_all

lemma traverse_cong:
  "(\<And>x. x \<in> set xs \<Longrightarrow> f x = g x) \<Longrightarrow> traverse f xs = traverse g xs"
  by (induction xs) (simp_all split: sum.splits)

lemma traverse_futures_Inr: "traverse (\<lambda>future. future) (map Inr ts) = Inr ts"
  by (induction ts) simp_all

lemma traverse_first_error:
  assumes "\<forall>x \<in> set pre. \<exists>v. f x = Inr v" and "f x = Inl e"
  shows "traverse f (pre @ x # post) = Inl e"
  using assms
proof (induction pre)
  case Nil
  then show ?case by simp
next
  case (Cons p pre)
  then obtain v where "f p = Inr v" by auto
  moreover have "traverse f (pre @ x # post) = Inl e" using Cons by simp
  ultimately show ?case by simp
qed

lemma traverse_error_source:
  "traverse f xs = Inl e \<Longrightarrow> \<exists>x \<in> set xs. f x = Inl e"
  by (induction xs) (auto split: sum.splits)

lemma traverse_total:
  "\<forall>x \<in> set xs. \<exists>v. f x = Inr v \<Longrightarrow> \<exists>vs. traverse f xs = Inr vs"
proof (induction xs)
  case Nil
  then show ?case by simp
next
  case (Cons x xs)
  then obtain v vs where "f x = Inr v" "traverse f xs = Inr vs" by auto
  then show ?case by simp
qed

subsection \<open>Completion order\<close>

lemma set_as_completed: "set (as_completed done_at fs) = set fs"
proof -
  have "set (as_completed done_at fs) = (\<lambda>i. fs ! i) ` {0..<length fs}"
    by (simp add: as_completed_def)
  also have "\<dots> = set fs" by (auto simp: set_conv_nth)
  finally show ?thesis .
qed

lemma as_completed_map: "as_completed done_at (map f xs) = map f (as_completed done_at xs)"
  by (simp add: as_completed_def)

subsection \<open>One tile\<close>

lemma tile_loop_total:
  assumes ev: "\<And>x y. ev x y depth = Inr (f x y)"
    and r: "rmin \<le> rmax" "rmax \<le> length yy" and c: "cmin \<le> cmax" "cmax \<le> length xx"
  shows "tile_loop ev xx yy rmin rmax cmin cmax depth =
           Inr \<lparr>tile_zz = map (\<lambda>r. map (\<lambda>c. Some (f (xx ! c) (yy ! r))) [cmin..<cmax]) [rmin..<rmax],
                tile_rmin = rmin, tile_rmax = rmax, tile_cmin = cmin, tile_cmax = cmax\<rparr>"
proof -
  have row: "traverse (\<lambda>c. case py_nth xx c of Inl e \<Rightarrow> Inl e
                 | Inr x \<Rightarrow> (case py_nth yy ro of Inl e \<Rightarrow> Inl e
                      | Inr y \<Rightarrow> (case ev x y depth of Inl e \<Rightarrow> Inl e | Inr v \<Rightarrow> Inr (Some v))))
              [cmin..<cmax]
             = Inr (map (\<lambda>c. Some (f (xx ! c) (yy ! ro))) [cmin..<cmax])"
    if "ro \<in> set [rmin..<rmax]" for ro
  proof -
    have "ro < length yy" using that r by simp
    then have "traverse (\<lambda>c. case py_nth xx c of Inl e \<Rightarrow> Inl e
                 | Inr x \<Rightarrow> (case py_nth yy ro of Inl e \<Rightarrow> Inl e
                      | Inr y \<Rightarrow> (case ev x y depth of Inl e \<Rightarrow> Inl e | Inr v \<Rightarrow> Inr (Some v))))
              [cmin..<cmax]
          = traverse (\<lambda>c. Inr (Some (f (xx ! c) (yy ! ro)))) [cmin..<cmax]"
      using c by (intro traverse_cong) (simp add: py_nth_def ev)
    then show ?thesis by (simp add: traverse_map_Inr)
  qed
  have "traverse (\<lambda>ro. traverse (\<lambda>c. case py_nth xx c of Inl e \<Rightarrow> Inl e
                 | Inr x \<Rightarrow> (case py_nth yy ro of Inl e \<Rightarrow> Inl e
                      | Inr y \<Rightarrow> (case ev x y depth of Inl e \<Rightarrow> Inl e | Inr v \<Rightarrow> Inr (Some v))))
              [cmin..<cmax]) [rmin..<rmax]
        = traverse (\<lambda>ro. Inr (map (\<lambda>c. Some (f (xx ! c) (yy ! ro))) [cmin..<cmax])) [rmin..<rmax]"
    by (rule traverse_cong) (rule row)
  then show ?thesis
    using r c by (simp add: tile_loop_def traverse_map_Inr)
qed

subsection \<open>Writing tiles into the grid\<close>

lemma length_paste: "length (paste grid t) = length grid"
  by (simp add: paste_def)

lemma length_paste_row: "r < length grid \<Longrightarrow> length (paste grid t ! r) = length (grid ! r)"
  by (simp add: paste_def)

lemma paste_nth:
  "r < length grid \<Longrightarrow> c < length (grid ! r) \<Longrightarrow>
   paste grid t ! r ! c =
     (if inside t r c then tile_zz t ! (r - tile_rmin t) ! (c - tile_cmin t) else grid ! r ! c)"
  by (simp add: paste_def inside_def)

lemma length_foldl_paste: "length (foldl paste grid ts) = length grid"
  by (induction ts arbitrary: grid) (simp_all add: length_paste)

lemma length_foldl_paste_row:
  "r < length grid \<Longrightarrow> length (foldl paste grid ts ! r) = length (grid ! r)"
  by (induction ts arbitrary: grid) (simp_all add: length_paste length_paste_row)

lemma foldl_paste_nth:
  assumes ok: "\<forall>t \<in> set ts. \<forall>r c. inside t r c \<longrightarrow>
                 tile_zz t ! (r - tile_rmin t) ! (c - tile_cmin t) = val r c"
    and r: "r < length grid" and c: "c < length (grid ! r)"
  shows "foldl paste grid ts ! r ! c =
           (if \<exists>t \<in> set ts. inside t r c then val r c else grid ! r ! c)"
  using ok r c
proof (induction ts arbitrary: grid)
  case Nil
  then show ?case by simp
next
  case (Cons t ts)
  have r': "r < length (paste grid t)" using Cons.prems(2) by (simp add: length_paste)
  have c': "c < length (paste grid t ! r)" using Cons.prems(2,3) by (simp add: length_paste_row)
  have ok': "\<forall>t \<in> set ts. \<forall>r c. inside t r c \<longrightarrow>
                 tile_zz t ! (r - tile_rmin t) ! (c - tile_cmin t) = val r c"
    using Cons.prems(1) by simp
  have here: "inside t r c \<Longrightarrow> tile_zz t ! (r - tile_rmin t) ! (c - tile_cmin t) = val r c"
    using Cons.prems(1) by simp
  have "foldl paste (paste grid t) ts ! r ! c =
          (if \<exists>t \<in> set ts. inside t r c then val r c else paste grid t ! r ! c)"
    by (rule Cons.IH[OF ok' r' c'])
  then show ?case
    using here by (simp add: paste_nth[OF Cons.prems(2,3)])
qed

subsection \<open>The tiles of an executor run\<close>

text \<open>The ranges computed for a length are never negative, whatever the tile size.\<close>

lemma batch_ranges_nonneg:
  assumes N: "0 \<le> N" and rs: "batch_ranges_with_size N batch_size = Inr rs" and r: "r \<in> set rs"
  shows "0 \<le> fst r \<and> 0 \<le> snd r"
proof (cases "N \<le> batch_size")
  case True
  then show ?thesis using N rs r by (auto simp: batch_ranges_with_size_def)
next
  case False
  show ?thesis
  proof (cases "0 < batch_size")
    case True
    then have "0 \<le> batch_size * (N div batch_size)"
      using N by (simp add: pos_imp_zdiv_nonneg_iff)
    then show ?thesis
      using False True N rs r
      by (auto simp: batch_ranges_with_size_def Let_def split: if_splits)
  next
    case neg: False
    then have b: "batch_size < 0" using False rs by (auto simp: batch_ranges_with_size_def split: if_splits)
    have "N div batch_size \<le> 0" using b N by (simp add: div_nonneg_neg_le0)
    moreover have "\<not> batch_size * (N div batch_size) < N"
    proof -
      have "N mod batch_size \<le> 0" using b by simp
      then show ?thesis by (metis add.commute add_le_same_cancel2 mult_div_mod_eq not_less)
    qed
    ultimately have "rs = []"
      using False b rs by (auto simp: batch_ranges_with_size_def Let_def split: if_splits)
    then show ?thesis using r by simp
  qed
qed

lemma traverse_Inr_all:
  "traverse f xs = Inr vs \<Longrightarrow> \<forall>x \<in> set xs. \<exists>v. f x = Inr v"
  by (induction xs arbitrary: vs) (auto split: sum.splits)

lemma batch_ranges_chained:
  assumes N: "1 \<le> N" and T: "1 \<le> tile_size"
  shows "\<exists>rs. batch_ranges_with_size N tile_size = Inr rs \<and> chained 0 rs N"
proof -
  define q where "q = N div tile_size"
  define full where "full = map (\<lambda>i. (int i * tile_size, (int i + 1) * tile_size)) [0..<nat q]"
  have Tpos: "0 < tile_size" using T by simp
  have q0: "0 \<le> q" unfolding q_def using N Tpos by (simp add: pos_imp_zdiv_nonneg_iff)
  have qN: "tile_size * q \<le> N" unfolding q_def using Tpos
    by (metis mult_div_mod_eq le_add_same_cancel1 pos_mod_sign)
  have full_chain: "chained 0 full (tile_size * q)"
    using chained_full_batches[OF Tpos, of 0 "nat q"] q0 by (simp add: full_def mult.commute)
  consider (single) "N \<le> tile_size" | (rem) "tile_size < N" "tile_size * q < N"
    | (exact) "tile_size < N" "tile_size * q = N"
    using qN by linarith
  then show ?thesis
  proof cases
    case single
    then show ?thesis using N by (simp add: batch_ranges_with_size_def)
  next
    case rem
    have "batch_ranges_with_size N tile_size = Inr (full @ [(tile_size * q, N)])"
      using rem Tpos by (simp add: batch_ranges_with_size_def Let_def q_def full_def)
    moreover have "chained 0 (full @ [(tile_size * q, N)]) N" unfolding chained_append
      using full_chain rem(2) by (intro exI[of _ "tile_size * q"]) simp
    ultimately show ?thesis by blast
  next
    case exact
    have "batch_ranges_with_size N tile_size = Inr full"
      using exact Tpos by (simp add: batch_ranges_with_size_def Let_def q_def full_def)
    then show ?thesis using full_chain exact(2) by simp
  qed
qed

lemma batch_ranges_cover:
  assumes N: "0 \<le> N" and T: "1 \<le> tile_size"
  shows "\<exists>rs. batch_ranges_with_size N tile_size = Inr rs
           \<and> (\<forall>r \<in> set rs. 0 \<le> fst r \<and> fst r \<le> snd r \<and> snd r \<le> N)
           \<and> (\<forall>i. 0 \<le> i \<and> i < N \<longrightarrow> (\<exists>r \<in> set rs. fst r \<le> i \<and> i < snd r))"
proof (cases "N = 0")
  case True
  then show ?thesis using T by (simp add: batch_ranges_with_size_def)
next
  case False
  then have "1 \<le> N" using N by simp
  from batch_ranges_chained[OF this T] obtain rs
    where rs: "batch_ranges_with_size N tile_size = Inr rs" and ch: "chained 0 rs N" by blast
  have within: "\<forall>r \<in> set rs. 0 \<le> fst r \<and> fst r \<le> snd r \<and> snd r \<le> N"
    using chained_within[OF ch] by fastforce
  have cover: "\<exists>r \<in> set rs. fst r \<le> i \<and> i < snd r" if "0 \<le> i" "i < N" for i
  proof -
    have "i \<in> (\<Union>r \<in> set rs. range_set r)" using chained_union[OF ch] that by simp
    then show ?thesis by (auto simp: range_set_def)
  qed
  show ?thesis using rs within cover by blast
qed

text \<open>The tiles submitted for a list of row ranges and a list of column ranges.\<close>

lemma executor_grid:
  fixes xx yy :: "real list" and f :: "real \<Rightarrow> real \<Rightarrow> 'v"
  assumes ev: "\<And>x y. ev x y depth = Inr (f x y)"
    and rw: "\<forall>r \<in> set row_batches. 0 \<le> fst r \<and> fst r \<le> snd r \<and> snd r \<le> int (length yy)"
    and rc: "\<forall>i. 0 \<le> i \<and> i < int (length yy) \<longrightarrow> (\<exists>r \<in> set row_batches. fst r \<le> i \<and> i < snd r)"
    and cw: "\<forall>r \<in> set col_batches. 0 \<le> fst r \<and> fst r \<le> snd r \<and> snd r \<le> int (length xx)"
    and cc: "\<forall>i. 0 \<le> i \<and> i < int (length xx) \<longrightarrow> (\<exists>r \<in> set col_batches. fst r \<le> i \<and> i < snd r)"
  shows "\<exists>ts. traverse (\<lambda>future. future)
                (as_completed done_at
                  (concat (map (\<lambda>row_batch. map (\<lambda>col_batch.
                     tile_loop ev xx yy (nat (fst row_batch)) (nat (snd row_batch))
                       (nat (fst col_batch)) (nat (snd col_batch)) depth)
                     col_batches) row_batches))) = Inr ts
            \<and> foldl paste (np_empty (length yy) (length xx)) ts
                = map (\<lambda>r. map (\<lambda>c. Some (f (xx ! c) (yy ! r))) [0..<length xx]) [0..<length yy]"
proof -
  define mk where "mk = (\<lambda>rb cb.
     \<lparr>tile_zz = map (\<lambda>r. map (\<lambda>c. Some (f (xx ! c) (yy ! r))) [nat (fst cb)..<nat (snd cb)])
                    [nat (fst rb)..<nat (snd rb)],
      tile_rmin = nat (fst rb), tile_rmax = nat (snd rb),
      tile_cmin = nat (fst cb), tile_cmax = nat (snd cb)\<rparr>)"
  define tiles where "tiles = concat (map (\<lambda>rb. map (mk rb) col_batches) row_batches)"
  have tl: "tile_loop ev xx yy (nat (fst rb)) (nat (snd rb)) (nat (fst cb)) (nat (snd cb)) depth
              = Inr (mk rb cb)"
    if "rb \<in> set row_batches" "cb \<in> set col_batches" for rb cb
    unfolding mk_def using rw cw that
    by (intro tile_loop_total[where f = f and ev = ev]) (auto simp: ev nat_le_iff nat_mono)
  have "map (\<lambda>col_batch. tile_loop ev xx yy (nat (fst rb)) (nat (snd rb))
                 (nat (fst col_batch)) (nat (snd col_batch)) depth) col_batches
        = map (\<lambda>cb. Inr (mk rb cb)) col_batches" if "rb \<in> set row_batches" for rb
    using that by (intro map_cong[OF refl]) (simp add: tl)
  then have rows_eq: "map (\<lambda>row_batch. map (\<lambda>col_batch. tile_loop ev xx yy (nat (fst row_batch)) (nat (snd row_batch))
                 (nat (fst col_batch)) (nat (snd col_batch)) depth) col_batches) row_batches
        = map (\<lambda>rb. map (\<lambda>cb. Inr (mk rb cb)) col_batches) row_batches"
    by (intro map_cong[OF refl]) simp
  have fl: "concat (map (\<lambda>row_batch. map (\<lambda>col_batch.
                     tile_loop ev xx yy (nat (fst row_batch)) (nat (snd row_batch))
                       (nat (fst col_batch)) (nat (snd col_batch)) depth)
                     col_batches) row_batches) = map Inr tiles"
    unfolding rows_eq tiles_def by (simp add: map_concat o_def)
  let ?ts = "as_completed done_at tiles"
  have tr: "traverse (\<lambda>future. future) (as_completed done_at (map Inr tiles)) = Inr ?ts"
    by (simp add: as_completed_map traverse_futures_Inr)
  have set_ts: "set ?ts = {mk rb cb | rb cb. rb \<in> set row_batches \<and> cb \<in> set col_batches}"
    by (auto simp: set_as_completed tiles_def)
  let ?val = "\<lambda>r c. Some (f (xx ! c) (yy ! r))"
  have ok: "\<forall>t \<in> set ?ts. \<forall>r c. inside t r c \<longrightarrow>
              tile_zz t ! (r - tile_rmin t) ! (c - tile_cmin t) = ?val r c"
    by (auto simp: set_ts mk_def inside_def)
  have covered: "\<exists>t \<in> set ?ts. inside t r c" if rl: "r < length yy" and cl: "c < length xx" for r c
  proof -
    obtain rb where rb: "rb \<in> set row_batches" "fst rb \<le> int r" "int r < snd rb"
      using rc rl by (metis of_nat_0_le_iff of_nat_less_iff)
    obtain cb where cb: "cb \<in> set col_batches" "fst cb \<le> int c" "int c < snd cb"
      using cc cl by (metis of_nat_0_le_iff of_nat_less_iff)
    have "nat (fst rb) \<le> r" "r < nat (snd rb)" "nat (fst cb) \<le> c" "c < nat (snd cb)"
      using rb cb by linarith+
    then have "inside (mk rb cb) r c" by (simp add: inside_def mk_def)
    then show ?thesis using rb(1) cb(1) set_ts by blast
  qed
  have grid: "foldl paste (np_empty (length yy) (length xx)) ?ts
                = map (\<lambda>r. map (\<lambda>c. ?val r c) [0..<length xx]) [0..<length yy]"
  proof (rule nth_equalityI)
    show "length (foldl paste (np_empty (length yy) (length xx)) ?ts)
            = length (map (\<lambda>r. map (\<lambda>c. ?val r c) [0..<length xx]) [0..<length yy])"
      by (simp add: length_foldl_paste np_empty_def)
  next
    fix r assume "r < length (foldl paste (np_empty (length yy) (length xx)) ?ts)"
    then have r: "r < length yy" by (simp add: length_foldl_paste np_empty_def)
    then have r': "r < length (np_empty (length yy) (length xx) :: 'v array2)" by (simp add: np_empty_def)
    have len: "length (np_empty (length yy) (length xx) ! r :: 'v option list) = length xx"
      using r by (simp add: np_empty_def)
    show "foldl paste (np_empty (length yy) (length xx)) ?ts ! r
            = map (\<lambda>r. map (\<lambda>c. ?val r c) [0..<length xx]) [0..<length yy] ! r"
    proof (rule nth_equalityI)
      show "length (foldl paste (np_empty (length yy) (length xx)) ?ts ! r)
              = length (map (\<lambda>r. map (\<lambda>c. ?val r c) [0..<length xx]) [0..<length yy] ! r)"
        using r by (simp add: length_foldl_paste_row[OF r'] len)
    next
      fix c assume "c < length (foldl paste (np_empty (length yy) (length xx)) ?ts ! r)"
      then have c: "c < length xx" by (simp add: length_foldl_paste_row[OF r'] len)
      then have c': "c < length (np_empty (length yy) (length xx) ! r :: 'v option list)" by (simp add: len)
      have "foldl paste (np_empty (length yy) (length xx)) ?ts ! r ! c = ?val r c"
        using foldl_paste_nth[OF ok r' c'] covered[OF r c] by simp
      then show "foldl paste (np_empty (length yy) (length xx)) ?ts ! r ! c
                   = map (\<lambda>r. map (\<lambda>c. ?val r c) [0..<length xx]) [0..<length yy] ! r ! c"
        using r c by simp
    qed
  qed
  show ?thesis unfolding fl using tr grid by blast
qed

subsection \<open>The sequential and the tiled executor\<close>

lemma sequential_grid:
  assumes ev: "\<And>x y. ev x y max_it = Inr (f x y)"
  shows "compute_image_float_with (tile_loop ev) xx yy max_it
           = Inr (normalize_grid
                   (map (\<lambda>r. map (\<lambda>c. Some (f (xx ! c) (yy ! r))) [0..<length xx]) [0..<length yy])
                   max_it)"
proof -
  have "tile_loop ev xx yy 0 (length yy) 0 (length xx) max_it =
           Inr \<lparr>tile_zz = map (\<lambda>r. map (\<lambda>c. Some (f (xx ! c) (yy ! r))) [0..<length xx]) [0..<length yy],
                tile_rmin = 0, tile_rmax = length yy, tile_cmin = 0, tile_cmax = length xx\<rparr>"
    by (rule tile_loop_total[where f = f and ev = ev]) (simp_all add: ev)
  then show ?thesis by (simp add: compute_image_float_with_def)
qed

lemma tiled_grid:
  assumes ev: "\<And>x y. ev x y max_it = Inr (f x y)"
    and T: "1 \<le> tile_size" and P: "\<not> pool_rejects pool_max n_workers"
  shows "compute_image_mp_with (tile_loop ev) xx yy max_it n_workers tile_size pool_max done_at
           = Inr (normalize_grid
                   (map (\<lambda>r. map (\<lambda>c. Some (f (xx ! c) (yy ! r))) [0..<length xx]) [0..<length yy])
                   max_it)"
proof -
  obtain row_batches where rb: "batch_ranges_with_size (int (length yy)) tile_size = Inr row_batches"
    and rw: "\<forall>r \<in> set row_batches. 0 \<le> fst r \<and> fst r \<le> snd r \<and> snd r \<le> int (length yy)"
    and rc: "\<forall>i. 0 \<le> i \<and> i < int (length yy) \<longrightarrow> (\<exists>r \<in> set row_batches. fst r \<le> i \<and> i < snd r)"
    using batch_ranges_cover[OF _ T, of "int (length yy)"] by auto
  obtain col_batches where cb: "batch_ranges_with_size (int (length xx)) tile_size = Inr col_batches"
    and cw: "\<forall>r \<in> set col_batches. 0 \<le> fst r \<and> fst r \<le> snd r \<and> snd r \<le> int (length xx)"
    and cc: "\<forall>i. 0 \<le> i \<and> i < int (length xx) \<longrightarrow> (\<exists>r \<in> set col_batches. fst r \<le> i \<and> i < snd r)"
    using batch_ranges_cover[OF _ T, of "int (length xx)"] by auto
  from executor_grid[where ev = ev and f = f and done_at = done_at, OF ev rw rc cw cc]
  obtain ts where ts: "traverse (\<lambda>future. future)
                (as_completed done_at
                  (concat (map (\<lambda>row_batch. map (\<lambda>col_batch.
                     tile_loop ev xx yy (nat (fst row_batch)) (nat (snd row_batch))
                       (nat (fst col_batch)) (nat (snd col_batch)) max_it)
                     col_batches) row_batches))) = Inr ts"
    and grid: "foldl paste (np_empty (length yy) (length xx)) ts
                = map (\<lambda>r. map (\<lambda>c. Some (f (xx ! c) (yy ! r))) [0..<length xx]) [0..<length yy]"
    by blast
  show ?thesis
    unfolding compute_image_mp_with_def hup_batch_ranges_with_size_def Let_def rb cb
    using P by (simp add: ts grid)
qed

lemma filter_eq_distinct:
  "distinct xs \<Longrightarrow> k \<in> set xs \<Longrightarrow> filter (\<lambda>x. k = x) xs = [k]"
proof (induction xs)
  case Nil
  then show ?case by simp
next
  case (Cons a xs)
  show ?case
  proof (cases "k = a")
    case True
    then have "k \<notin> set xs" using Cons.prems(1) by simp
    then have "filter (\<lambda>x. k = x) xs = []" by (auto simp: filter_empty_conv)
    then show ?thesis using True by simp
  next
    case False
    then show ?thesis using Cons by simp
  qed
qed

text \<open>Every order of the submitted futures is the completion order of some schedule.\<close>

lemma every_order_is_a_schedule:
  assumes "mset p = mset [0..<n]"
  shows "\<exists>done_at :: nat \<Rightarrow> nat. sort_key done_at [0..<n] = p"
proof -
  have d: "distinct p" using assms by (metis distinct_upt mset_eq_imp_distinct_iff)
  have s: "set p = {0..<n}" using assms by (metis atLeastLessThan_upt mset_eq_setD)
  have l: "length p = n" using assms by (metis length_upt mset_eq_length minus_nat.diff_0)
  define pos where "pos = (\<lambda>i. THE k. k < n \<and> p ! k = i)"
  have pos: "pos (p ! k) = k" if "k < n" for k
    unfolding pos_def using that d l by (intro the_equality) (auto simp: nth_eq_iff_index_eq)
  have inj: "pos i = pos j \<Longrightarrow> i = j" if "i \<in> set p" "j \<in> set p" for i j
    using that pos l by (metis in_set_conv_nth)
  have "map pos p = [0..<n]"
    by (rule nth_equalityI) (simp_all add: l pos)
  then have sorted: "sorted (map pos p)" by simp
  have "sort_key pos [0..<n] = p"
  proof (rule properties_for_sort_key)
    show "mset p = mset [0..<n]" by (rule assms)
    show "sorted (map pos p)" by (rule sorted)
    fix k assume k: "k \<in> set p"
    have "filter (\<lambda>x. pos k = pos x) p = filter (\<lambda>x. k = x) p"
      by (rule filter_cong[OF refl]) (use inj k in blast)
    moreover have "filter (\<lambda>x. pos k = pos x) [0..<n] = filter (\<lambda>x. k = x) [0..<n]"
      by (rule filter_cong[OF refl]) (use inj k s in auto)
    moreover have "filter (\<lambda>x. k = x) p = [k]" using d k by (rule filter_eq_distinct)
    moreover have "filter (\<lambda>x. k = x) [0..<n] = [k]"
      using k s by (intro filter_eq_distinct) simp_all
    ultimately show "filter (\<lambda>x. pos k = pos x) p = filter (\<lambda>x. pos k = pos x) [0..<n]" by simp
  qed
  then show ?thesis by blast
qed

lemma as_completed_every_order:
  assumes "mset p = mset [0..<length fs]"
  shows "\<exists>done_at. as_completed done_at fs = map (\<lambda>i. fs ! i) p"
  using every_order_is_a_schedule[OF assms] by (auto simp: as_completed_def)

text \<open>
  Claim C2 says that the tiled executor returns the grid of the sequential one for every
  \<open>n_workers\<close>. \<^verbatim>\<open>compute_image_mp\<close> creates \<^verbatim>\<open>ProcessPoolExecutor(max_workers=n_workers)\<close>,
  which raises \<^verbatim>\<open>ValueError\<close> for \<open>n_workers = 0\<close>, while \<^verbatim>\<open>compute_image\<close> returns the
  grid; \<^verbatim>\<open>mandelbrot\<close> calls the tiled executor for \<open>n_workers > 1\<close> only.
\<close>

theorem tiled_equals_sequential_counterexample:
  "compute_image_mp [0] [0] 1 0 1 None (\<lambda>i. i) = Inl ValueError
   \<and> compute_image_float [0] [0] 1 = Inr [[Some (Fin 1)]]"
  by (simp add: compute_image_mp_def compute_image_mp_with_def compute_image_float_def
      compute_image_float_with_def hup_batch_ranges_with_size_def batch_ranges_with_size_def
      pool_rejects_def inner_loop_def tile_loop_def py_nth_def fn_test_float_def
      normalize_grid_def np_divide_def)

text \<open>
  Claim C2, amended. For all axis arrays, every \<open>max_it \<ge> 1\<close>, every \<open>tile_size \<ge> 1\<close>, every
  \<open>n_workers\<close> the process pool accepts (\<open>n_workers \<ge> 1\<close>, and not above the platform's limit
  where there is one) and every completion order, \<^verbatim>\<open>compute_image_mp\<close> returns the grid
  that \<^verbatim>\<open>compute_image\<close> returns, slot for slot; the same holds with any evaluator that
  returns a value in the place of \<^verbatim>\<open>fn_test\<close>, and \<^verbatim>\<open>mandelbrot\<close> returns with \<open>n_workers\<close>
  workers what it returns with one.
\<close>

theorem tiled_equals_sequential:
  assumes "1 \<le> max_it" and T: "1 \<le> tile_size" and P: "\<not> pool_rejects pool_max n_workers"
  shows "compute_image_mp xx yy max_it n_workers tile_size pool_max done_at
           = compute_image_float xx yy max_it
       \<and> (\<exists>zz. compute_image_float xx yy max_it = Inr zz)
       \<and> (\<forall>f. compute_image_mp_with (tile_loop (\<lambda>cx cy m. Inr (f cx cy m)))
                  xx yy max_it n_workers tile_size pool_max done_at
               = compute_image_float_with (tile_loop (\<lambda>cx cy m. Inr (f cx cy m))) xx yy max_it)
       \<and> (\<forall>xmin xmax ymin ymax steps.
             mandelbrot_float xmin xmax ymin ymax steps max_it n_workers tile_size pool_max done_at
               = mandelbrot_float xmin xmax ymin ymax steps max_it 1 tile_size pool_max done_at)"
proof -
  have gen: "compute_image_mp_with (tile_loop (\<lambda>cx cy m. Inr (f cx cy m)))
                  xs ys max_it n_workers tile_size pool_max done_at
               = compute_image_float_with (tile_loop (\<lambda>cx cy m. Inr (f cx cy m))) xs ys max_it"
    for f :: "real \<Rightarrow> real \<Rightarrow> int \<Rightarrow> real" and xs ys
    using tiled_grid[where ev = "\<lambda>cx cy m. Inr (f cx cy m)" and f = "\<lambda>x y. f x y max_it", OF refl T P]
      sequential_grid[where ev = "\<lambda>cx cy m. Inr (f cx cy m)" and f = "\<lambda>x y. f x y max_it", OF refl]
    by simp
  have eq: "compute_image_mp xs ys max_it n_workers tile_size pool_max done_at
           = compute_image_float xs ys max_it" for xs ys
    unfolding compute_image_mp_def compute_image_float_def inner_loop_def by (rule gen)
  have ex: "\<exists>zz. compute_image_float xx yy max_it = Inr zz"
    unfolding compute_image_float_def inner_loop_def
    using sequential_grid[where ev = "\<lambda>cx cy m. Inr (real_of_int (fn_test_float cx cy m))"
        and f = "\<lambda>x y. real_of_int (fn_test_float x y max_it)", OF refl]
    by simp
  have top: "mandelbrot_float xmin xmax ymin ymax steps max_it n_workers tile_size pool_max done_at
               = mandelbrot_float xmin xmax ymin ymax steps max_it 1 tile_size pool_max done_at"
    for xmin xmax ymin ymax steps
    by (simp add: mandelbrot_float_def eq split: sum.splits prod.splits)
  show ?thesis using eq ex gen top by blast
qed

lemma compute_image_float_example:
  "compute_image_float [0, 3] [0] 2 = Inr [[Some (Fin 1), Some (Fin (1 / 2))]]"
  by (simp add: compute_image_float_def compute_image_float_with_def inner_loop_def tile_loop_def
      py_nth_def fn_test_float_def normalize_grid_def np_divide_def upt_rec eval_nat_numeral)

theorem tiled_equals_sequential_witness:
  "(1::int) \<le> 2 \<and> (1::int) \<le> 1 \<and> \<not> pool_rejects None 2
   \<and> compute_image_mp [0, 3] [0] 2 2 1 None (\<lambda>i. 1 - i) = Inr [[Some (Fin 1), Some (Fin (1 / 2))]]"
  using tiled_equals_sequential[of 2 1 None 2 "[0, 3]" "[0]" "\<lambda>i. 1 - i"] compute_image_float_example
  by (simp add: pool_rejects_def)

subsection \<open>The end-to-end run\<close>

lemma escape_loop_bound: "escape_loop thr cx cy x y i k = Some j \<Longrightarrow> j < i + k"
proof (induction k arbitrary: x y i)
  case 0
  then show ?case by simp
next
  case (Suc k)
  let ?xn = "x * x - y * y + cx" and ?yn = "2 * x * y + cy"
  show ?case
  proof (cases "?xn * ?xn + ?yn * ?yn > thr")
    case True
    then show ?thesis using Suc.prems by (simp add: Let_def)
  next
    case False
    then have "escape_loop thr cx cy ?xn ?yn (Suc i) k = Some j"
      using Suc.prems by (simp add: Let_def)
    from Suc.IH[OF this] show ?thesis by simp
  qed
qed

lemma fn_test_range: "0 \<le> fn_test cx cy depth \<and> fn_test cx cy depth < 1"
proof (cases "escape_loop 4 cx cy 0 0 0 (nat depth)")
  case None
  then show ?thesis by (simp add: fn_test_def)
next
  case (Some j)
  from escape_loop_bound[OF Some] have j: "j < nat depth" by simp
  then have "0 < depth" "real j < real_of_int depth" by linarith+
  then show ?thesis using Some by (simp add: fn_test_def)
qed

lemma linspace_length:
  "0 \<le> num \<Longrightarrow> \<exists>xs. linspace start stop num = Inr xs \<and> length xs = nat num"
  by (auto simp: linspace_def Let_def)

lemma compute_image_grid:
  assumes ev: "\<And>x y. ev x y depth = Inr (f x y)"
    and T: "1 \<le> tile_size" and P: "\<not> pool_rejects pool_max n_workers"
    and ne: "xx \<noteq> []" "yy \<noteq> []"
  shows "compute_image_with (tile_loop ev) xx yy depth n_workers tile_size pool_max done_at
           = Inr (map (\<lambda>r. map (\<lambda>c. Some (f (xx ! c) (yy ! r))) [0..<length xx]) [0..<length yy])"
proof -
  obtain row_batches where rb: "batch_ranges_with_size (int (length yy)) tile_size = Inr row_batches"
    and rw: "\<forall>r \<in> set row_batches. 0 \<le> fst r \<and> fst r \<le> snd r \<and> snd r \<le> int (length yy)"
    and rc: "\<forall>i. 0 \<le> i \<and> i < int (length yy) \<longrightarrow> (\<exists>r \<in> set row_batches. fst r \<le> i \<and> i < snd r)"
    using batch_ranges_cover[OF _ T, of "int (length yy)"] by auto
  obtain col_batches where cb: "batch_ranges_with_size (int (length xx)) tile_size = Inr col_batches"
    and cw: "\<forall>r \<in> set col_batches. 0 \<le> fst r \<and> fst r \<le> snd r \<and> snd r \<le> int (length xx)"
    and cc: "\<forall>i. 0 \<le> i \<and> i < int (length xx) \<longrightarrow> (\<exists>r \<in> set col_batches. fst r \<le> i \<and> i < snd r)"
    using batch_ranges_cover[OF _ T, of "int (length xx)"] by auto
  from executor_grid[where ev = ev and f = f and done_at = done_at, OF ev rw rc cw cc]
  obtain ts where ts: "traverse (\<lambda>future. future)
                (as_completed done_at
                  (concat (map (\<lambda>row_batch. map (\<lambda>col_batch.
                     tile_loop ev xx yy (nat (fst row_batch)) (nat (snd row_batch))
                       (nat (fst col_batch)) (nat (snd col_batch)) depth)
                     col_batches) row_batches))) = Inr ts"
    and grid: "foldl paste (np_empty (length yy) (length xx)) ts
                = map (\<lambda>r. map (\<lambda>c. Some (f (xx ! c) (yy ! r))) [0..<length xx]) [0..<length yy]"
    by blast
  show ?thesis
    unfolding compute_image_with_def Let_def rb cb
    using P ne by (simp add: ts grid)
qed

lemma compute_image_unit_grid:
  assumes T: "1 \<le> tile_size" and P: "\<not> pool_rejects pool_max n_workers"
    and n: "0 < n" "length xx = n" "length yy = n"
  shows "\<exists>zz. unit_grid n zz \<and>
           (\<forall>done_at. compute_image xx yy depth n_workers tile_size pool_max done_at = Inr zz)"
proof -
  let ?zz = "map (\<lambda>r. map (\<lambda>c. Some (fn_test (xx ! c) (yy ! r) depth)) [0..<length xx]) [0..<length yy]"
  have ne: "xx \<noteq> []" "yy \<noteq> []" using n by auto
  have run: "compute_image xx yy depth n_workers tile_size pool_max done_at = Inr ?zz" for done_at
    unfolding compute_image_def compute_tile_def
    by (rule compute_image_grid[where f = "\<lambda>x y. fn_test x y depth"
          and ev = "\<lambda>cx cy depth. Inr (fn_test cx cy depth)", OF refl T P ne])
  have "unit_grid n ?zz"
    using n fn_test_range by (auto simp: unit_grid_def less_imp_le)
  then show ?thesis using run by blast
qed

text \<open>
  Claim C3. \<^verbatim>\<open>mandelbrot\<close> of \<^verbatim>\<open>mandelbrot.py\<close> with the box \<open>(-2, 1, -1.5, 1.5)\<close>,
  resolution 101, depth 50, tile size 20 and 3 workers returns a grid of shape
  \<open>(101, 101)\<close> whose values all lie in \<open>[0, 1]\<close>, and the same grid for every completion
  order, that is on every run; so does \<^verbatim>\<open>compute_image\<close> on any two axes of 101 samples.
\<close>

theorem mandelbrot_end_to_end:
  assumes P: "\<not> pool_rejects pool_max 3"
  shows "(\<exists>zz. unit_grid 101 zz \<and>
            (\<forall>done_at. mandelbrot (- 2) 1 (- 3 / 2) (3 / 2) 101 50 3 20 pool_max done_at = Inr zz))
       \<and> (\<forall>xx yy. length xx = 101 \<and> length yy = 101 \<longrightarrow>
            (\<exists>zz. unit_grid 101 zz \<and>
               (\<forall>done_at. compute_image xx yy 50 3 20 pool_max done_at = Inr zz)))"
proof -
  have gen: "\<exists>zz. unit_grid 101 zz \<and>
               (\<forall>done_at. compute_image xx yy 50 3 20 pool_max done_at = Inr zz)"
    if "length xx = 101" "length yy = 101" for xx yy
    using compute_image_unit_grid[of 20 pool_max 3 101 xx yy 50] P that by simp
  obtain xx where xx: "linspace (- 2) 1 101 = Inr xx" "length xx = 101"
    using linspace_length[of 101 "- 2" 1] by auto
  obtain yy where yy: "linspace (3 / 2) (- 3 / 2) 101 = Inr yy" "length yy = 101"
    using linspace_length[of 101 "3 / 2" "- 3 / 2"] by auto
  have "mandelbrot (- 2) 1 (- 3 / 2) (3 / 2) 101 50 3 20 pool_max done_at
          = compute_image xx yy 50 3 20 pool_max done_at" for done_at
    using xx(1) yy(1) by (simp add: mandelbrot_def mandelbrot_axes_def)
  then show ?thesis using gen[OF xx(2) yy(2)] gen by auto
qed

theorem mandelbrot_end_to_end_witness:
  "\<not> pool_rejects None 3
   \<and> (\<exists>zz. unit_grid 101 zz
         \<and> mandelbrot (- 2) 1 (- 3 / 2) (3 / 2) 101 50 3 20 None (\<lambda>i. i) = Inr zz
         \<and> mandelbrot (- 2) 1 (- 3 / 2) (3 / 2) 101 50 3 20 None (\<lambda>i. 25 - i) = Inr zz)"
  using mandelbrot_end_to_end[of None] by (auto simp: pool_rejects_def)

subsection \<open>A failing tile\<close>

text \<open>
  Claim C8 says that the error of a failing tile reaches the caller with the tile's
  coordinates attached. \<^verbatim>\<open>future.result()\<close> raises the exception of the worker as it
  is, and \<^verbatim>\<open>compute_image\<close> catches nothing: a worker raising in the first tile and a
  worker raising in the second give the caller the same exception.
\<close>

theorem tile_failure_propagates_counterexample:
  "compute_image_with (failing_at 0) [0] [0, 1] 1 1 1 None (\<lambda>i. i) = Inl (WorkerError ''boom'')
   \<and> compute_image_with (failing_at 1) [0] [0, 1] 1 1 1 None (\<lambda>i. i) = Inl (WorkerError ''boom'')
   \<and> failing_at 0 [0] [0, 1] 0 1 0 1 1 = Inl (WorkerError ''boom'')
   \<and> failing_at 0 [0] [0, 1] 1 2 0 1 1 \<noteq> Inl (WorkerError ''boom'')
   \<and> failing_at 1 [0] [0, 1] 0 1 0 1 1 \<noteq> Inl (WorkerError ''boom'')
   \<and> failing_at 1 [0] [0, 1] 1 2 0 1 1 = Inl (WorkerError ''boom'')"
  by (simp add: compute_image_with_def batch_ranges_with_size_def pool_rejects_def as_completed_def
      failing_at_def compute_tile_def tile_loop_def py_nth_def Let_def upt_rec eval_nat_numeral)

text \<open>
  Claim C8, amended. If the computation of any tile raises an exception, the whole run
  fails and no grid is returned: \<^verbatim>\<open>compute_image\<close> raises, unchanged, the exception of a
  failing tile, namely of the first future in completion order that failed; the exception
  carries no tile coordinates.
\<close>

theorem tile_failure_propagates:
  assumes rb: "batch_ranges_with_size (int (length yy)) tile_size = Inr row_batches"
    and cb: "batch_ranges_with_size (int (length xx)) tile_size = Inr col_batches"
    and P: "\<not> pool_rejects pool_max n_workers"
    and r: "row_batch \<in> set row_batches" and c: "col_batch \<in> set col_batches"
    and fail: "work xx yy (nat (fst row_batch)) (nat (snd row_batch))
                          (nat (fst col_batch)) (nat (snd col_batch)) depth = Inl e0"
  shows "(\<exists>e. compute_image_with work xx yy depth n_workers tile_size pool_max done_at = Inl e
           \<and> (\<exists>rb \<in> set row_batches. \<exists>cb \<in> set col_batches.
                 work xx yy (nat (fst rb)) (nat (snd rb)) (nat (fst cb)) (nat (snd cb)) depth = Inl e))
       \<and> (\<forall>finished e later.
             as_completed done_at
               (concat (map (\<lambda>row_batch. map (\<lambda>col_batch.
                        work xx yy (nat (fst row_batch)) (nat (snd row_batch))
                                   (nat (fst col_batch)) (nat (snd col_batch)) depth)
                      col_batches) row_batches)) = map Inr finished @ Inl e # later
             \<longrightarrow> compute_image_with work xx yy depth n_workers tile_size pool_max done_at = Inl e)"
proof -
  define future_list where "future_list =
     concat (map (\<lambda>row_batch. map (\<lambda>col_batch.
                        work xx yy (nat (fst row_batch)) (nat (snd row_batch))
                                   (nat (fst col_batch)) (nat (snd col_batch)) depth)
                      col_batches) row_batches)"
  have mem: "Inl e0 \<in> set future_list"
  proof -
    have "work xx yy (nat (fst row_batch)) (nat (snd row_batch))
            (nat (fst col_batch)) (nat (snd col_batch)) depth \<in> set future_list"
      unfolding future_list_def using r c by auto
    then show ?thesis by (simp add: fail)
  qed
  have src: "\<exists>rb \<in> set row_batches. \<exists>cb \<in> set col_batches.
                 work xx yy (nat (fst rb)) (nat (snd rb)) (nat (fst cb)) (nat (snd cb)) depth = x"
    if "x \<in> set future_list" for x
    using that unfolding future_list_def by auto
  have "\<exists>e. traverse (\<lambda>future. future) (as_completed done_at future_list) = Inl e"
  proof (cases "traverse (\<lambda>future. future) (as_completed done_at future_list)")
    case (Inl e)
    then show ?thesis by blast
  next
    case (Inr ts)
    from traverse_Inr_all[OF this] mem show ?thesis
      by (auto simp: set_as_completed)
  qed
  then obtain e where e: "traverse (\<lambda>future. future) (as_completed done_at future_list) = Inl e"
    by blast
  from traverse_error_source[OF e] have "Inl e \<in> set future_list"
    by (simp add: set_as_completed)
  from src[OF this] have who: "\<exists>rb \<in> set row_batches. \<exists>cb \<in> set col_batches.
      work xx yy (nat (fst rb)) (nat (snd rb)) (nat (fst cb)) (nat (snd cb)) depth = Inl e" .
  have run: "compute_image_with work xx yy depth n_workers tile_size pool_max done_at = Inl e"
    unfolding compute_image_with_def Let_def rb cb using P e
    by (simp add: future_list_def)
  have first: "compute_image_with work xx yy depth n_workers tile_size pool_max done_at = Inl e'"
    if "as_completed done_at future_list = map Inr finished @ Inl e' # later" for finished e' later
  proof -
    have "traverse (\<lambda>future. future) (map Inr finished @ Inl e' # later) = Inl e'"
      by (rule traverse_first_error) auto
    then show ?thesis
      unfolding compute_image_with_def Let_def rb cb using P that
      by (simp add: future_list_def)
  qed
  show ?thesis using run who first unfolding future_list_def by blast
qed

theorem tile_failure_propagates_witness:
  "batch_ranges_with_size (int (length [0::real, 1])) 1 = Inr [(0, 1), (1, 2)]
   \<and> batch_ranges_with_size (int (length [0::real])) 1 = Inr [(0, 1)]
   \<and> \<not> pool_rejects None 1
   \<and> failing_at 1 [0] [0, 1] 1 2 0 1 1 = Inl (WorkerError ''boom'')
   \<and> (\<exists>e. compute_image_with (failing_at 1) [0] [0, 1] 1 1 1 None (\<lambda>i. i) = Inl e)"
proof -
  have rb: "batch_ranges_with_size (int (length [0::real, 1])) 1 = Inr [(0, 1), (1, 2)]"
    by (simp add: batch_ranges_with_size_def upt_rec)
  have cb: "batch_ranges_with_size (int (length [0::real])) 1 = Inr [(0, 1)]"
    by (simp add: batch_ranges_with_size_def)
  have P: "\<not> pool_rejects None 1" by (simp add: pool_rejects_def)
  have f: "failing_at 1 [0] [0, 1] (nat (fst (1::int, 2::int))) (nat (snd (1::int, 2::int)))
             (nat (fst (0::int, 1::int))) (nat (snd (0::int, 1::int))) 1 = Inl (WorkerError ''boom'')"
    by (simp add: failing_at_def)
  have "(1::int, 2::int) \<in> set [(0, 1), (1, 2)]" "(0::int, 1::int) \<in> set [(0, 1)]" by simp_all
  from tile_failure_propagates[where work = "failing_at 1" and xx = "[0]" and yy = "[0, 1]"
          and depth = 1 and row_batch = "(1, 2)" and col_batch = "(0, 1)" and done_at = "\<lambda>i. i"
          and ?e0.0 = "WorkerError ''boom''", OF rb cb P this f]
  have "\<exists>e. compute_image_with (failing_at 1) [0] [0, 1] 1 1 1 None (\<lambda>i. i) = Inl e" by blast
  then show ?thesis using rb cb P f by auto
qed

end
